theory Spec2Isabelle
  imports Main "HOL-Library.Sublist"
begin

section \<open>JavaScript strings\<close>

text \<open>
  A JavaScript string is a sequence of UTF-16 code units. A code unit is modelled by its
  numeric value, so that the characters beyond Latin-1 which \<open>String.prototype.trim\<close>
  removes can be written down. \<open>js\<close> embeds an ASCII literal.
\<close>

type_synonym jsstring = "nat list"

definition js :: "string \<Rightarrow> jsstring" where
  "js s = map of_char s"

definition MINUS :: nat where "MINUS = 45"
definition SLASH :: nat where "SLASH = 47"
definition STAR :: nat where "STAR = 42"
definition APOS :: nat where "APOS = 39"
definition DQUOTE :: nat where "DQUOTE = 34"
definition DOLLAR :: nat where "DOLLAR = 36"
definition SEMI :: nat where "SEMI = 59"
definition NEWLINE :: nat where "NEWLINE = 10"

lemmas char_defs = MINUS_def SLASH_def STAR_def APOS_def DQUOTE_def DOLLAR_def SEMI_def
  NEWLINE_def

text \<open>
  The code units removed by \<open>trim\<close>: the ECMAScript \<open>WhiteSpace\<close> and
  \<open>LineTerminator\<close> productions (TAB, LF, VT, FF, CR, SP, NBSP, U+1680,
  U+2000..U+200A, U+2028, U+2029, U+202F, U+205F, U+3000, U+FEFF).
\<close>

definition isWhiteSpace :: "nat \<Rightarrow> bool" where
  "isWhiteSpace c \<longleftrightarrow>
     (9 \<le> c \<and> c \<le> 13) \<or> c = 32 \<or> c = 160 \<or> c = 5760 \<or> (8192 \<le> c \<and> c \<le> 8202) \<or>
     c = 8232 \<or> c = 8233 \<or> c = 8239 \<or> c = 8287 \<or> c = 12288 \<or> c = 65279"

definition trim :: "jsstring \<Rightarrow> jsstring" where
  "trim s = rev (dropWhile isWhiteSpace (rev (dropWhile isWhiteSpace s)))"

text \<open>
  \<open>s.substring(a, b)\<close>: both indices are clamped to the length and swapped when
  \<open>a > b\<close>. The one-argument call \<open>s.substring(a)\<close> is \<open>substring s a (length s)\<close>.
\<close>

definition substring :: "'a list \<Rightarrow> nat \<Rightarrow> nat \<Rightarrow> 'a list" where
  "substring s a b =
     (let a' = min a (length s); b' = min b (length s);
          lo = min a' b'; hi = max a' b'
      in take (hi - lo) (drop lo s))"

text \<open>
  \<open>s.indexOf(pat, pos)\<close>: the least index \<open>k \<ge> min pos (length s)\<close> at which
  \<open>pat\<close> occurs in \<open>s\<close>; \<open>None\<close> stands for the result \<open>-1\<close>.
\<close>

function indexFrom :: "'a list \<Rightarrow> 'a list \<Rightarrow> nat \<Rightarrow> nat option" where
  "indexFrom s pat k =
     (if k + length pat \<le> length s
      then (if take (length pat) (drop k s) = pat then Some k else indexFrom s pat (Suc k))
      else None)"
  by pat_completeness auto
termination
  by (relation "measure (\<lambda>(s, pat, k). Suc (length s) - k)") auto

declare indexFrom.simps [simp del]

definition indexOf :: "'a list \<Rightarrow> 'a list \<Rightarrow> nat \<Rightarrow> nat option" where
  "indexOf s pat pos = indexFrom s pat (min pos (length s))"

section \<open>The statement classifier\<close>

text \<open>The character class \<open>/[a-zA-Z0-9_]/\<close> of the dollar-quote tag scan.\<close>

definition isTagChar :: "nat \<Rightarrow> bool" where
  "isTagChar c \<longleftrightarrow>
     (97 \<le> c \<and> c \<le> 122) \<or> (65 \<le> c \<and> c \<le> 90) \<or> (48 \<le> c \<and> c \<le> 57) \<or> c = 95"

text \<open>
  The inner loop of the single-quoted branch, started after the opening quote. It returns
  the value of \<open>i\<close> when the loop is left: the index of the closing quote (by
  \<open>break\<close>), or an index past the end.
\<close>

function skipSingle :: "jsstring \<Rightarrow> nat \<Rightarrow> nat" where
  "skipSingle sql i =
     (if i < length sql then
        (if sql ! i = APOS then
           (if i + 1 < length sql \<and> sql ! (i + 1) = APOS then skipSingle sql (i + 2) else i)
         else skipSingle sql (i + 1))
      else i)"
  by pat_completeness auto
termination
  by (relation "measure (\<lambda>(sql, i). length sql - i)") auto

declare skipSingle.simps [simp del]

text \<open>\<open>while (i < len && sql[i] !== '"') i++\<close>\<close>

function skipDouble :: "jsstring \<Rightarrow> nat \<Rightarrow> nat" where
  "skipDouble sql i =
     (if i < length sql \<and> sql ! i \<noteq> DQUOTE then skipDouble sql (i + 1) else i)"
  by pat_completeness auto
termination
  by (relation "measure (\<lambda>(sql, i). length sql - i)") auto

declare skipDouble.simps [simp del]

text \<open>\<open>while (j < len && /[a-zA-Z0-9_]/.test(sql[j])) j++\<close>\<close>

function skipTag :: "jsstring \<Rightarrow> nat \<Rightarrow> nat" where
  "skipTag sql j =
     (if j < length sql \<and> isTagChar (sql ! j) then skipTag sql (j + 1) else j)"
  by pat_completeness auto
termination
  by (relation "measure (\<lambda>(sql, j). length sql - j)") auto

declare skipTag.simps [simp del]

text \<open>
  The dollar-quote branch, entered when \<open>sql[i]\<close> is a dollar sign. \<open>None\<close> means
  that no delimiter \<open>$tag$\<close> starts at \<open>i\<close>, so that control falls through to the
  semicolon check.
\<close>

datatype outcome = Return bool | Continue nat

definition dollarQuote :: "jsstring \<Rightarrow> nat \<Rightarrow> outcome option" where
  "dollarQuote sql i =
     (let j = skipTag sql (i + 1) in
        if j < length sql \<and> sql ! j = DOLLAR then
          (let tag = substring sql i (j + 1) in
             case indexOf sql tag (j + 1) of
               None \<Rightarrow> Some (Return True)
             | Some endIdx \<Rightarrow> Some (Continue (endIdx + length tag)))
        else None)"

text \<open>
  One pass through the body of the outer \<open>while (i < len)\<close> loop at index \<open>i\<close>: either
  the function returns, or the loop goes on at a new index.
\<close>

definition loop_body :: "jsstring \<Rightarrow> nat \<Rightarrow> outcome" where
  "loop_body sql i =
     (let len = length sql;
          ch = sql ! i;
          next = (if i + 1 < len then Some (sql ! (i + 1)) else None)
      in
        if ch = MINUS \<and> next = Some MINUS then
          (case indexOf sql [NEWLINE] i of
             None \<Rightarrow> Return True
           | Some k \<Rightarrow> Continue (k + 1))
        else if ch = SLASH \<and> next = Some STAR then
          (case indexOf sql [STAR, SLASH] (i + 2) of
             None \<Rightarrow> Return True
           | Some e \<Rightarrow> Continue (e + 2))
        else if ch = APOS then Continue (skipSingle sql (i + 1) + 1)
        else if ch = DQUOTE then Continue (skipDouble sql (i + 1) + 1)
        else
          (case (if ch = DOLLAR then dollarQuote sql i else None) of
             Some out \<Rightarrow> out
           | None \<Rightarrow>
               if ch = SEMI \<and> length (trim (substring sql (i + 1) len)) > 0 then Return False
               else Continue (i + 1)))"

lemma indexFrom_ge: "indexFrom s pat k = Some e \<Longrightarrow> k \<le> e"
proof (induction s pat k rule: indexFrom.induct)
  case (1 s pat k)
  from "1.prems" show ?case
    by (subst (asm) indexFrom.simps) (auto split: if_splits dest: "1.IH" [rotated 2])
qed

lemma skipSingle_ge: "i \<le> skipSingle sql i"
proof (induction sql i rule: skipSingle.induct)
  case (1 sql i)
  show ?case
    by (subst skipSingle.simps) (use "1.IH" in \<open>auto intro: le_trans [rotated]\<close>)
qed

lemma skipDouble_ge: "i \<le> skipDouble sql i"
proof (induction sql i rule: skipDouble.induct)
  case (1 sql i)
  show ?case
    by (subst skipDouble.simps) (use "1.IH" in \<open>auto intro: le_trans [rotated]\<close>)
qed

lemma skipTag_ge: "j \<le> skipTag sql j"
proof (induction sql j rule: skipTag.induct)
  case (1 sql j)
  show ?case
    by (subst skipTag.simps) (use "1.IH" in \<open>auto intro: le_trans [rotated]\<close>)
qed

lemma loop_body_progress:
  assumes "loop_body sql i = Continue k" and "i < length sql"
  shows "i < k"
proof -
  have a: "indexOf sql p q = Some e \<Longrightarrow> q \<le> length sql \<Longrightarrow> q \<le> e" for p q e
    by (auto simp: indexOf_def min_def dest: indexFrom_ge split: if_splits)
  have b: "i + 1 \<le> skipTag sql (i + 1)" by (rule skipTag_ge)
  have c: "i + 1 \<le> skipSingle sql (i + 1)" by (rule skipSingle_ge)
  have d: "i + 1 \<le> skipDouble sql (i + 1)" by (rule skipDouble_ge)
  from assms b c d show ?thesis
    unfolding loop_body_def dollarQuote_def Let_def
    by (auto split: if_splits option.splits dest!: a)
qed

function scan :: "jsstring \<Rightarrow> nat \<Rightarrow> bool" where
  "scan sql i =
     (if i < length sql then
        (case loop_body sql i of
           Return b \<Rightarrow> b
         | Continue k \<Rightarrow> scan sql k)
      else True)"
  by pat_completeness auto
termination
  by (relation "measure (\<lambda>(sql, i). length sql - i)")
     (auto dest: loop_body_progress)

declare scan.simps [simp del]

definition isSingleStatement :: "jsstring \<Rightarrow> bool" where
  "isSingleStatement sql = scan sql 0"

text \<open>
  The indices at which the outer loop starts an iteration, in order, when the scan is
  started at \<open>i\<close>: the scan of \<open>sql\<close> reaches index \<open>k\<close> when
  \<open>k \<in> set (visited sql 0)\<close>. No iteration follows one that returns.
\<close>

function visited :: "jsstring \<Rightarrow> nat \<Rightarrow> nat list" where
  "visited sql i =
     (if i < length sql then
        i # (case loop_body sql i of
               Return b \<Rightarrow> []
             | Continue k \<Rightarrow> visited sql k)
      else [])"
  by pat_completeness auto
termination
  by (relation "measure (\<lambda>(sql, i). length sql - i)")
     (auto dest: loop_body_progress)

declare visited.simps [simp del]

section \<open>Lexical contexts, as the specification describes them\<close>

text \<open>
  The specification speaks of the text outside line comments, block comments, single-quoted
  literals, double-quoted identifiers and dollar-tagged bodies. The definitions of this
  section follow its words on the remaining text (a list), not the index arithmetic of the
  source: \<open>afterFirst pat s\<close> is the text after the first occurrence of \<open>pat\<close> in
  \<open>s\<close>, and each construct either closes, leaving a remaining text, or is unterminated
  and consumes the remainder (\<open>None\<close>).
\<close>

fun afterFirst :: "'a list \<Rightarrow> 'a list \<Rightarrow> 'a list option" where
  "afterFirst pat [] = (if pat = [] then Some [] else None)"
| "afterFirst pat (x # xs) =
     (if prefix pat (x # xs) then Some (drop (length pat) (x # xs)) else afterFirst pat xs)"

text \<open>
  The text after a single-quoted literal, given the text after its opening quote: a doubled
  quote inside the literal is an escaped quote, not a terminator.
\<close>

fun closeSingle :: "jsstring \<Rightarrow> jsstring option" where
  "closeSingle [] = None"
| "closeSingle (c # cs) =
     (if c = APOS then
        (case cs of
           [] \<Rightarrow> Some []
         | d # r \<Rightarrow> if d = APOS then closeSingle r else Some cs)
      else closeSingle cs)"

text \<open>
  The text after a double-quoted identifier, given the text after its opening quote: the
  identifier runs to the next double quote.
\<close>

definition closeDouble :: "jsstring \<Rightarrow> jsstring option" where
  "closeDouble s = (case dropWhile (\<lambda>c. c \<noteq> DQUOTE) s of [] \<Rightarrow> None | q # r \<Rightarrow> Some r)"

text \<open>
  The delimiter \<open>$tag$\<close> that a dollar sign opens, given the text after the dollar sign,
  together with the text after the delimiter; the tag is a possibly empty run of the
  characters \<open>[a-zA-Z0-9_]\<close>. \<open>None\<close>: the dollar sign opens no delimiter.
\<close>

definition dollarTag :: "jsstring \<Rightarrow> (jsstring \<times> jsstring) option" where
  "dollarTag cs =
     (case dropWhile isTagChar cs of
        [] \<Rightarrow> None
      | d # body \<Rightarrow>
          if d = DOLLAR then Some (DOLLAR # takeWhile isTagChar cs @ [DOLLAR], body) else None)"

text \<open>
  The lexical context that starts with the first character of \<open>s\<close>, if one does:
  \<open>Some (Some r)\<close> when it closes and \<open>r\<close> is the text after it, \<open>Some None\<close>
  when it is unterminated. A line comment runs from \<open>--\<close> to the end of the line, a
  block comment from \<open>/*\<close> to the first \<open>*/\<close>, a dollar-tagged body from its
  delimiter to the next occurrence of the identical delimiter.
\<close>

definition lexicalContext :: "jsstring \<Rightarrow> jsstring option option" where
  "lexicalContext s =
     (case s of
        [] \<Rightarrow> None
      | c # cs \<Rightarrow>
          if c = MINUS \<and> prefix [MINUS] cs then Some (afterFirst [NEWLINE] (tl cs))
          else if c = SLASH \<and> prefix [STAR] cs then Some (afterFirst [STAR, SLASH] (tl cs))
          else if c = APOS then Some (closeSingle cs)
          else if c = DQUOTE then Some (closeDouble cs)
          else if c = DOLLAR then
            (case dollarTag cs of
               None \<Rightarrow> None
             | Some (delim, body) \<Rightarrow> Some (afterFirst delim body))
          else None)"

lemma afterFirst_suffix: "afterFirst pat s = Some r \<Longrightarrow> suffix r s"
  by (induction s) (auto split: if_splits simp: suffix_drop intro: suffix_ConsI)

lemma closeSingle_suffix: "closeSingle s = Some r \<Longrightarrow> suffix r s"
  by (induction s arbitrary: r rule: closeSingle.induct)
     (auto split: if_splits list.splits intro: suffix_ConsI)

lemma closeDouble_suffix: "closeDouble s = Some r \<Longrightarrow> suffix r s"
  unfolding closeDouble_def
  by (auto split: list.splits) (metis suffix_ConsD suffix_dropWhile)

lemma dollarTag_suffix: "dollarTag s = Some (d, b) \<Longrightarrow> suffix b s"
  unfolding dollarTag_def
  by (auto split: list.splits if_splits) (metis suffix_ConsD suffix_dropWhile)

lemma lexicalContext_shorter:
  assumes "lexicalContext (c # cs) = Some (Some r)"
  shows "length r \<le> length cs"
  using assms unfolding lexicalContext_def
  by (auto split: if_splits option.splits
      dest!: afterFirst_suffix closeSingle_suffix closeDouble_suffix dollarTag_suffix
             suffix_length_le)

function outside :: "jsstring \<Rightarrow> jsstring list" where
  "outside [] = []"
| "outside (c # cs) =
     (case lexicalContext (c # cs) of
        None \<Rightarrow> (c # cs) # outside cs
      | Some None \<Rightarrow> []
      | Some (Some r) \<Rightarrow> outside r)"
  by pat_completeness auto
termination
  by (relation "measure length") (auto dest: lexicalContext_shorter)

declare outside.simps [simp del]

text \<open>
  The specification's verdict: outside the lexical contexts, no semicolon is followed by
  further non-whitespace content. \<open>outside sql\<close> lists, for every character of
  \<open>sql\<close> that lies outside all lexical contexts, the text from that character on.
\<close>

definition specSingleStatement :: "jsstring \<Rightarrow> bool" where
  "specSingleStatement sql \<longleftrightarrow>
     (\<forall>t \<in> set (outside sql). hd t = SEMI \<longrightarrow> list_all isWhiteSpace (tl t))"

text \<open>
  How one pass of the loop body relates to a lexical context that starts at the same place:
  a context that closes with remaining text \<open>r\<close> makes the loop go on exactly where
  \<open>r\<close> starts; one that consumes the remainder makes the function return true or
  the loop go on past the end.
\<close>

definition agrees :: "jsstring \<Rightarrow> outcome \<Rightarrow> jsstring option \<Rightarrow> bool" where
  "agrees sql out ro \<longleftrightarrow>
     (case ro of
        None \<Rightarrow> (case out of Return b \<Rightarrow> b | Continue k \<Rightarrow> length sql \<le> k)
      | Some r \<Rightarrow> (case out of Return b \<Rightarrow> False | Continue k \<Rightarrow> drop k sql = r))"

section \<open>Connection descriptors and the configuration schema\<close>

datatype SslConfig =
    SslTrue
  | SslObject (rejectUnauthorized: "bool option") (ca: "jsstring option")
      (cert: "jsstring option") (key: "jsstring option")

record DbConnection =
  label :: jsstring
  host :: "jsstring option"
  port :: int
  user :: "jsstring option"
  password :: jsstring
  database :: "jsstring option"
  url :: "jsstring option"
  enabled :: bool
  ssl :: "SslConfig option"
  readOnly :: bool
  poolSize :: int

text \<open>
  One entry of \<open>connections\<close> before validation, after \<open>JSON.parse\<close> and
  \<open>resolveEnvVars\<close>. \<open>None\<close> is an absent field. A field of the wrong type (and a number
  that \<open>z.coerce.number().int()\<close> rejects) makes the whole parse fail and is not
  represented; numeric fields hold the coerced integer.
\<close>

record RawConnection =
  raw_label :: "jsstring option"
  raw_host :: "jsstring option"
  raw_port :: "int option"
  raw_user :: "jsstring option"
  raw_password :: "jsstring option"
  raw_database :: "jsstring option"
  raw_url :: "jsstring option"
  raw_enabled :: "bool option"
  raw_ssl :: "SslConfig option"
  raw_readOnly :: "bool option"
  raw_poolSize :: "int option"

text \<open>JavaScript truthiness of an optional string: defined and not empty.\<close>

definition truthy :: "jsstring option \<Rightarrow> bool" where
  "truthy s = (case s of None \<Rightarrow> False | Some v \<Rightarrow> v \<noteq> [])"

definition orDefault :: "'a option \<Rightarrow> 'a \<Rightarrow> 'a" where
  "orDefault v d = (case v of None \<Rightarrow> d | Some x \<Rightarrow> x)"

text \<open>\<open>DbConnectionSchema.parse\<close>: defaults, then the checks; \<open>None\<close> is a \<open>ZodError\<close>.\<close>

definition DbConnectionSchema :: "RawConnection \<Rightarrow> DbConnection option" where
  "DbConnectionSchema r =
     (case raw_label r of
        None \<Rightarrow> None
      | Some l \<Rightarrow>
          (let c = \<lparr> label = l,
                     host = raw_host r,
                     port = orDefault (raw_port r) 5432,
                     user = raw_user r,
                     password = orDefault (raw_password r) [],
                     database = raw_database r,
                     url = raw_url r,
                     enabled = orDefault (raw_enabled r) True,
                     ssl = raw_ssl r,
                     readOnly = orDefault (raw_readOnly r) True,
                     poolSize = orDefault (raw_poolSize r) 5 \<rparr>
           in if length l \<ge> 1 \<and> port c > 0 \<and> 1 \<le> poolSize c \<and> poolSize c \<le> 100 \<and>
                 (truthy (url c) \<or> (truthy (host c) \<and> truthy (user c) \<and> truthy (database c)))
              then Some c else None))"

text \<open>
  \<open>DbConfigSchema.parse\<close> on the entries of \<open>connections\<close> (the array, or
  \<open>Object.values\<close> of the record): every entry must parse.
\<close>

fun DbConfigSchema :: "RawConnection list \<Rightarrow> DbConnection list option" where
  "DbConfigSchema [] = Some []"
| "DbConfigSchema (r # rs) =
     (case DbConnectionSchema r of
        None \<Rightarrow> None
      | Some c \<Rightarrow> (case DbConfigSchema rs of None \<Rightarrow> None | Some cs \<Rightarrow> Some (c # cs)))"

section \<open>Promises, thrown values and the server state\<close>

text \<open>
  A thrown value is an \<open>Error\<close> with its message, or some other value with its
  \<open>String(e)\<close> rendering.
\<close>

datatype thrown = JsError jsstring | NonError jsstring

datatype jsvalue =
    JNull | JBool bool | JNumber int | JString jsstring
  | JArray "jsvalue list" | JObject "(jsstring \<times> jsvalue) list"

record QueryResult =
  rows :: "jsvalue list option"
  resultFields :: "jsstring list"
  rowCount :: "nat option"

record PoolConfig =
  connectionTimeoutMillis :: int
  statement_timeout :: int
  idleTimeoutMillis :: int
  cfg_max :: int
  cfg_connectionString :: "jsstring option"
  cfg_host :: "jsstring option"
  cfg_port :: "int option"
  cfg_user :: "jsstring option"
  cfg_password :: "jsstring option"
  cfg_database :: "jsstring option"
  cfg_ssl :: "SslConfig option"

text \<open>A \<open>pg.Pool\<close> object: its identity and the configuration it was built from.\<close>

record Pool =
  poolId :: nat
  poolCfg :: PoolConfig

record PoolEntry =
  pool :: Pool
  hash :: jsstring

record ConfigCache =
  connections :: "DbConnection list"
  mtime :: int
  loadedAt :: int

text \<open>The object literal that \<open>connHash\<close> hands to \<open>JSON.stringify\<close>.\<close>

record HashInput =
  h :: "jsstring option"
  p :: int
  u :: "jsstring option"
  pw :: jsstring
  d :: "jsstring option"
  hurl :: "jsstring option"
  hssl :: "SslConfig option"
  ps :: int

text \<open>What the server does to the outside world, in order.\<close>

datatype event =
    PoolCreated Pool
  | PoolEnd nat
  | PoolConnect nat
  | ClientQuery nat jsstring "jsvalue list option"
  | ClientRelease nat

record Payload =
  columns :: "jsstring list"
  payloadRows :: "jsvalue list"
  payloadRowCount :: "nat option"
  truncation :: "(nat \<times> nat) option"

text \<open>
  The process environment and the libraries the server calls, over a state \<open>'w\<close> of the
  outside world (file system, clock, database servers) that every call may change.
\<close>

record 'w Env =
  LABEL_FILTER :: "jsstring option"
  stringify :: "HashInput \<Rightarrow> jsstring"
  stringifyPayload :: "Payload \<Rightarrow> jsstring"
  dateNow :: "'w \<Rightarrow> int \<times> 'w"
  statMtimeMs :: "'w \<Rightarrow> (thrown + int) \<times> 'w"
  readConnections :: "'w \<Rightarrow> (thrown + RawConnection list) \<times> 'w"
  poolConnect :: "Pool \<Rightarrow> 'w \<Rightarrow> (thrown + nat) \<times> 'w"
  clientQuery :: "nat \<Rightarrow> jsstring \<Rightarrow> jsvalue list option \<Rightarrow> 'w \<Rightarrow> (thrown + QueryResult) \<times> 'w"

text \<open>
  The module-level state: \<open>configCache\<close>, the \<open>pools\<close> map, the number of pools
  constructed so far (the identity of the next one), the trace of effects and the world.
\<close>

record 'w Server =
  configCache :: "ConfigCache option"
  pools :: "jsstring \<rightharpoonup> PoolEntry"
  constructed :: nat
  trace :: "event list"
  world :: 'w

text \<open>
  An \<open>async\<close> function is an action on the server state that ends with a value or with
  a thrown value. One call is followed from start to end: the interleaving of several calls
  at their \<open>await\<close>s is not modelled, and neither is the output of \<open>console.error\<close>.
\<close>

type_synonym ('a, 'w) action = "'w Server \<Rightarrow> (thrown + 'a) \<times> 'w Server"

definition resolve :: "'a \<Rightarrow> ('a, 'w) action" where
  "resolve x = (\<lambda>st. (Inr x, st))"

definition reject :: "thrown \<Rightarrow> ('a, 'w) action" where
  "reject e = (\<lambda>st. (Inl e, st))"

definition andThen :: "('a, 'w) action \<Rightarrow> ('a \<Rightarrow> ('b, 'w) action) \<Rightarrow> ('b, 'w) action" where
  "andThen m f = (\<lambda>st. case m st of (Inl e, st') \<Rightarrow> (Inl e, st') | (Inr x, st') \<Rightarrow> f x st')"

definition tryCatch :: "('a, 'w) action \<Rightarrow> (thrown \<Rightarrow> ('a, 'w) action) \<Rightarrow> ('a, 'w) action" where
  "tryCatch m handler =
     (\<lambda>st. case m st of (Inl e, st') \<Rightarrow> handler e st' | (Inr x, st') \<Rightarrow> (Inr x, st'))"

text \<open>\<open>try { m } finally { fin }\<close> for a \<open>fin\<close> that does not throw.\<close>

definition tryFinally :: "('a, 'w) action \<Rightarrow> ('w Server \<Rightarrow> 'w Server) \<Rightarrow> ('a, 'w) action" where
  "tryFinally m fin = (\<lambda>st. case m st of (r, st') \<Rightarrow> (r, fin st'))"

text \<open>A call into the outside world.\<close>

definition inWorld :: "('w \<Rightarrow> (thrown + 'a) \<times> 'w) \<Rightarrow> ('a, 'w) action" where
  "inWorld f = (\<lambda>st. case f (world st) of (r, w') \<Rightarrow> (r, st\<lparr>world := w'\<rparr>))"

definition emit :: "event \<Rightarrow> 'w Server \<Rightarrow> 'w Server" where
  "emit ev st = st\<lparr>trace := trace st @ [ev]\<rparr>"

section \<open>The connection pool registry\<close>

definition connHash :: "'w Env \<Rightarrow> DbConnection \<Rightarrow> jsstring" where
  "connHash env c =
     stringify env \<lparr> h = host c, p = port c, u = user c, pw = password c, d = database c,
       hurl = url c, hssl = ssl c, ps = poolSize c \<rparr>"

text \<open>The \<open>pg.PoolConfig\<close> that \<open>getOrCreatePool\<close> builds for a descriptor.\<close>

definition poolConfig :: "DbConnection \<Rightarrow> PoolConfig" where
  "poolConfig conn =
     (let cfg = \<lparr> connectionTimeoutMillis = 10000, statement_timeout = 30000,
                  idleTimeoutMillis = 60000, cfg_max = poolSize conn,
                  cfg_connectionString = None, cfg_host = None, cfg_port = None,
                  cfg_user = None, cfg_password = None, cfg_database = None,
                  cfg_ssl = None \<rparr>;
          cfg = (if truthy (url conn) then cfg\<lparr>cfg_connectionString := url conn\<rparr>
                 else cfg\<lparr>cfg_host := host conn, cfg_port := Some (port conn),
                          cfg_user := user conn, cfg_password := Some (password conn),
                          cfg_database := database conn\<rparr>)
      in case ssl conn of
           None \<Rightarrow> cfg
         | Some s \<Rightarrow>
             cfg\<lparr>cfg_ssl := Some (if s = SslTrue then SslObject (Some False) None None None
                                   else s)\<rparr>)"

text \<open>
  \<open>getOrCreatePool\<close>: an entry with the same hash is returned as it is; otherwise the
  existing pool, if any, is ended (\<open>existing.pool.end()\<close>), a pool is constructed
  (\<open>new pg.Pool(cfg)\<close>) and stored under the label.
\<close>

definition getOrCreatePool :: "'w Env \<Rightarrow> DbConnection \<Rightarrow> 'w Server \<Rightarrow> Pool \<times> 'w Server" where
  "getOrCreatePool env conn st =
     (let hash' = connHash env conn;
          existing = pools st (label conn)
      in case (case existing of
                 None \<Rightarrow> None
               | Some e \<Rightarrow> if hash e = hash' then Some (pool e) else None) of
           Some unchanged \<Rightarrow> (unchanged, st)
         | None \<Rightarrow>
             (let st1 = (case existing of
                           None \<Rightarrow> st
                         | Some e \<Rightarrow> emit (PoolEnd (poolId (pool e))) st);
                  new = \<lparr> poolId = constructed st1, poolCfg = poolConfig conn \<rparr>;
                  st2 = emit (PoolCreated new) (st1\<lparr>constructed := Suc (constructed st1)\<rparr>)
              in (new, st2\<lparr>pools := (pools st2)(label conn \<mapsto> \<lparr> pool = new, hash = hash' \<rparr>)\<rparr>)))"

section \<open>The configuration loader\<close>

definition CONFIG_CACHE_TTL :: int where
  "CONFIG_CACHE_TTL = 5000"

text \<open>\<open>arr.findIndex(pred)\<close>, with \<open>None\<close> for \<open>-1\<close>.\<close>

fun findIndex :: "('a \<Rightarrow> bool) \<Rightarrow> 'a list \<Rightarrow> nat option" where
  "findIndex pred [] = None"
| "findIndex pred (x # xs) = (if pred x then Some 0 else map_option Suc (findIndex pred xs))"

text \<open>
  \<open>connections.filter((c, i, arr) => arr.findIndex((x) => x.label === c.label) === i)\<close>
\<close>

definition keepFirstByLabel :: "DbConnection list \<Rightarrow> DbConnection list" where
  "keepFirstByLabel arr =
     map snd (filter (\<lambda>(i, c). findIndex (\<lambda>x. label x = label c) arr = Some i)
                (enumerate 0 arr))"

text \<open>The three filters between the parse and the cache update.\<close>

definition selectConnections :: "jsstring option \<Rightarrow> DbConnection list \<Rightarrow> DbConnection list" where
  "selectConnections labelFilter parsed =
     (let cs = keepFirstByLabel parsed;
          cs = filter (\<lambda>c. enabled c \<noteq> False) cs
      in if truthy labelFilter then filter (\<lambda>c. Some (label c) = labelFilter) cs else cs)"

definition now :: "'w Env \<Rightarrow> (int, 'w) action" where
  "now env = (\<lambda>st. case dateNow env (world st) of (t, w') \<Rightarrow> (Inr t, st\<lparr>world := w'\<rparr>))"

text \<open>
  The full reload: from \<open>readFile\<close> to the cache update. What \<open>readFile\<close>,
  \<open>JSON.parse\<close> and \<open>resolveEnvVars\<close> produce is the world's answer; the shape of the
  entries is checked by the schema.
\<close>

definition reloadConfig :: "'w Env \<Rightarrow> (DbConnection list, 'w) action" where
  "reloadConfig env =
     andThen (inWorld (readConnections env)) (\<lambda>raws.
       case DbConfigSchema raws of
         None \<Rightarrow> reject (JsError (js ''ZodError''))
       | Some parsed \<Rightarrow>
           (let conns = selectConnections (LABEL_FILTER env) parsed in
              andThen (tryCatch (inWorld (statMtimeMs env)) (\<lambda>e. resolve 0)) (\<lambda>m.
              andThen (now env) (\<lambda>t st.
                (Inr conns,
                 st\<lparr>configCache :=
                      Some \<lparr> connections = conns, mtime = m, loadedAt = t \<rparr>\<rparr>)))))"

text \<open>The body of the \<open>try\<close> block of \<open>loadConfig\<close>.\<close>

definition loadConfigTry :: "'w Env \<Rightarrow> (DbConnection list, 'w) action" where
  "loadConfigTry env st =
     (case configCache st of
        None \<Rightarrow> reloadConfig env st
      | Some cache \<Rightarrow>
          andThen (now env) (\<lambda>t.
            if t - loadedAt cache < CONFIG_CACHE_TTL then resolve (connections cache)
            else
              andThen (tryCatch (andThen (inWorld (statMtimeMs env)) (\<lambda>m. resolve (Some m)))
                         (\<lambda>e. resolve None)) (\<lambda>s.
                if s = Some (mtime cache) then
                  andThen (now env) (\<lambda>t' st'.
                    (Inr (connections cache),
                     st'\<lparr>configCache := Some (cache\<lparr>loadedAt := t'\<rparr>)\<rparr>))
                else reloadConfig env)) st)"

text \<open>\<open>loadConfig\<close>: every failure is logged and answered by the empty list.\<close>

definition loadConfig :: "'w Env \<Rightarrow> 'w Server \<Rightarrow> DbConnection list \<times> 'w Server" where
  "loadConfig env st =
     (case loadConfigTry env st of
        (Inr conns, st') \<Rightarrow> (conns, st')
      | (Inl e, st') \<Rightarrow> ([], st'))"

text \<open>\<open>Array.prototype.join\<close>\<close>

fun join :: "jsstring \<Rightarrow> jsstring list \<Rightarrow> jsstring" where
  "join sep [] = []"
| "join sep [x] = x"
| "join sep (x # y # ys) = x @ sep @ join sep (y # ys)"

text \<open>
  \<open>getConnection\<close>: the first descriptor of the current list with the label, or the
  error \<open>Database "label" not found. Available: ...\<close>.
\<close>

definition getConnection :: "'w Env \<Rightarrow> jsstring \<Rightarrow> (DbConnection, 'w) action" where
  "getConnection env lbl st =
     (case loadConfig env st of
        (conns, st') \<Rightarrow>
          (case find (\<lambda>c. label c = lbl) conns of
             Some conn \<Rightarrow> (Inr conn, st')
           | None \<Rightarrow>
               (let joined = join (js '', '') (map label conns);
                    available = (if joined = [] then js ''(none)'' else joined)
                in (Inl (JsError (js ''Database '' @ [DQUOTE] @ lbl @ [DQUOTE] @
                                  js '' not found. Available: '' @ available)), st'))))"

section \<open>The query executor\<close>

text \<open>\<open>pool.connect()\<close> and \<open>client.query(text, params)\<close>, each recorded in the trace.\<close>

definition connectClient :: "'w Env \<Rightarrow> Pool \<Rightarrow> (nat, 'w) action" where
  "connectClient env pl st = inWorld (poolConnect env pl) (emit (PoolConnect (poolId pl)) st)"

definition sendQuery ::
  "'w Env \<Rightarrow> nat \<Rightarrow> jsstring \<Rightarrow> jsvalue list option \<Rightarrow> (QueryResult, 'w) action" where
  "sendQuery env client sqlText params st =
     inWorld (clientQuery env client sqlText params) (emit (ClientQuery client sqlText params) st)"

text \<open>
  \<open>withPool\<close>: resolve the descriptor, get its pool, borrow a client, run the callback
  and release the client on every exit of the callback.
\<close>

definition withPool :: "'w Env \<Rightarrow> jsstring \<Rightarrow> (nat \<Rightarrow> ('a, 'w) action) \<Rightarrow> ('a, 'w) action" where
  "withPool env lbl fn =
     andThen (getConnection env lbl) (\<lambda>conn.
     andThen (\<lambda>st. case getOrCreatePool env conn st of (pl, st') \<Rightarrow> (Inr pl, st')) (\<lambda>pl.
     andThen (connectClient env pl) (\<lambda>client.
       tryFinally (fn client) (emit (ClientRelease client)))))"

record ToolResult =
  content_text :: jsstring
  isError :: bool

definition errorResult :: "thrown \<Rightarrow> ToolResult" where
  "errorResult e =
     \<lparr> content_text = js ''Error: '' @ (case e of JsError msg \<Rightarrow> msg | NonError s \<Rightarrow> s),
       isError = True \<rparr>"

text \<open>The callback that \<open>pg_query\<close> hands to \<open>withPool\<close>.\<close>

definition transaction ::
  "'w Env \<Rightarrow> DbConnection \<Rightarrow> jsstring \<Rightarrow> jsvalue list option \<Rightarrow> nat \<Rightarrow> (QueryResult, 'w) action" where
  "transaction env conn sqlText params client =
     andThen (if readOnly conn
              then sendQuery env client (js ''BEGIN TRANSACTION READ ONLY'') None
              else sendQuery env client (js ''BEGIN'') None) (\<lambda>begun.
       tryCatch
         (andThen (sendQuery env client sqlText params) (\<lambda>res.
          andThen (sendQuery env client (js ''COMMIT'') None) (\<lambda>committed.
            resolve res)))
         (\<lambda>e.
            andThen (tryCatch (andThen (sendQuery env client (js ''ROLLBACK'') None)
                                 (\<lambda>rolledBack. resolve ()))
                       (\<lambda>rollbackError. resolve ())) (\<lambda>done.
              reject e)))"

text \<open>The decimal digits of a natural number, as a template literal renders it.\<close>

function showNat :: "nat \<Rightarrow> jsstring" where
  "showNat n = (if n < 10 then [48 + n] else showNat (n div 10) @ [48 + n mod 10])"
  by pat_completeness auto
termination
  by (relation "measure id") auto

declare showNat.simps [simp del]

text \<open>
  The part of the \<open>pg_query\<close> handler after the transaction: the message for an empty
  result, or the payload with the rows cut at \<open>limit\<close>.
\<close>

definition formatResult :: "'w Env \<Rightarrow> nat option \<Rightarrow> QueryResult \<Rightarrow> ToolResult" where
  "formatResult env limit result =
     (let noRows = \<lparr> content_text = js ''Query executed. '' @
                       showNat (orDefault (rowCount result) 0) @
                       js '' row(s) affected. No rows returned.'',
                     isError = False \<rparr>
      in case rows result of
           None \<Rightarrow> noRows
         | Some rs \<Rightarrow>
             if length rs = 0 then noRows
             else
               (let totalRows = length rs;
                    truncated = (case limit of None \<Rightarrow> False
                                 | Some l \<Rightarrow> l \<noteq> 0 \<and> totalRows > l);
                    payload = \<lparr> columns = resultFields result,
                                payloadRows = (if truncated then take (orDefault limit 0) rs
                                               else rs),
                                payloadRowCount = rowCount result,
                                truncation = (if truncated
                                              then Some (totalRows, orDefault limit 0)
                                              else None) \<rparr>
                in \<lparr> content_text = stringifyPayload env payload, isError = False \<rparr>))"

text \<open>
  The \<open>pg_query\<close> handler: the classifier's veto comes first; every thrown value is
  turned into \<open>errorResult\<close>.
\<close>

definition pg_query ::
  "'w Env \<Rightarrow> jsstring \<Rightarrow> jsstring \<Rightarrow> jsvalue list option \<Rightarrow> nat option \<Rightarrow> 'w Server
     \<Rightarrow> ToolResult \<times> 'w Server" where
  "pg_query env dbLabel sqlText params limit st =
     (case (if \<not> isSingleStatement sqlText then
              resolve \<lparr> content_text = js ''Error: Multi-statement queries are not allowed. Send one statement at a time.'',
                        isError = True \<rparr>
            else
              andThen (getConnection env dbLabel) (\<lambda>conn.
              andThen (withPool env dbLabel (transaction env conn sqlText params)) (\<lambda>result.
                resolve (formatResult env limit result)))) st of
        (Inr r, st') \<Rightarrow> (r, st')
      | (Inl e, st') \<Rightarrow> (errorResult e, st'))"

section \<open>A sample environment\<close>

definition sampleRaw :: "string \<Rightarrow> string \<Rightarrow> bool option \<Rightarrow> bool option \<Rightarrow> RawConnection" where
  "sampleRaw lbl hostName ro en =
     \<lparr> raw_label = Some (js lbl), raw_host = Some (js hostName), raw_port = None,
       raw_user = Some (js ''app''), raw_password = None, raw_database = Some (js ''main''),
       raw_url = None, raw_enabled = en, raw_ssl = None, raw_readOnly = ro,
       raw_poolSize = None \<rparr>"

text \<open>
  Four entries: \<open>staging\<close> (read-only by default), \<open>prod\<close> (read-write), a second
  \<open>staging\<close> on another host, and a disabled \<open>old\<close>.
\<close>

definition sampleRaws :: "RawConnection list" where
  "sampleRaws =
     [sampleRaw ''staging'' ''db1'' None None,
      sampleRaw ''prod'' ''db2'' (Some False) None,
      sampleRaw ''staging'' ''db3'' None None,
      sampleRaw ''old'' ''db4'' None (Some False)]"

definition sampleConn :: "string \<Rightarrow> string \<Rightarrow> bool \<Rightarrow> bool \<Rightarrow> DbConnection" where
  "sampleConn lbl hostName ro en =
     \<lparr> label = js lbl, host = Some (js hostName), port = 5432, user = Some (js ''app''),
       password = [], database = Some (js ''main''), url = None, enabled = en, ssl = None,
       readOnly = ro, poolSize = 5 \<rparr>"

text \<open>
  A world without state: the file holds \<open>sampleRaws\<close>, every connect yields client 0,
  the statement \<open>UPDATE t SET x = 1\<close> and every \<open>ROLLBACK\<close> fail, every other query
  succeeds with no rows.
\<close>

definition sampleEnv :: "jsstring option \<Rightarrow> unit Env" where
  "sampleEnv labelFilter =
     \<lparr> LABEL_FILTER = labelFilter,
       stringify = (\<lambda>i. orDefault (h i) [] @ js '':'' @ showNat (nat (p i))),
       stringifyPayload = (\<lambda>pl. js ''{}''),
       dateNow = (\<lambda>w. (0, w)),
       statMtimeMs = (\<lambda>w. (Inr 1, w)),
       readConnections = (\<lambda>w. (Inr sampleRaws, w)),
       poolConnect = (\<lambda>pl w. (Inr 0, w)),
       clientQuery = (\<lambda>client sqlText params w.
          (if sqlText = js ''ROLLBACK'' then Inl (JsError (js ''rollback failed''))
           else if sqlText = js ''UPDATE t SET x = 1''
           then Inl (JsError (js ''cannot execute UPDATE in a read-only transaction''))
           else Inr \<lparr> rows = Some [], resultFields = [], rowCount = None \<rparr>, w)) \<rparr>"

definition sampleServer :: "unit Server" where
  "sampleServer =
     \<lparr> configCache = None, pools = Map.empty, constructed = 0, trace = [], world = () \<rparr>"


text \<open>A query with two positional placeholders, the first followed at once by the second.\<close>

definition stackedPlaceholders :: jsstring where
  "stackedPlaceholders = js ''SELECT $1$2; DROP TABLE t''"

section \<open>The scan of the source against the lexical contexts\<close>

lemma dropWhile_all_conv:
  "(\<forall>x\<in>set (dropWhile P xs). P x) \<longleftrightarrow> (\<forall>x\<in>set xs. P x)"
proof
  assume h: "\<forall>x\<in>set (dropWhile P xs). P x"
  have "dropWhile P xs = []"
  proof (rule ccontr)
    assume ne: "dropWhile P xs \<noteq> []"
    then have "\<not> P (hd (dropWhile P xs))" by (rule hd_dropWhile)
    moreover from ne have "hd (dropWhile P xs) \<in> set (dropWhile P xs)" by (rule hd_in_set)
    ultimately show False using h by blast
  qed
  then show "\<forall>x\<in>set xs. P x" by (simp only: dropWhile_eq_Nil_conv)
next
  assume "\<forall>x\<in>set xs. P x"
  then show "\<forall>x\<in>set (dropWhile P xs). P x"
    by (blast dest: set_dropWhileD)
qed

lemma trim_empty: "trim s = [] \<longleftrightarrow> list_all isWhiteSpace s"
  by (simp add: trim_def list_all_iff dropWhile_all_conv)

lemma afterFirst_short: "length s < length pat \<Longrightarrow> afterFirst pat s = None"
proof (induction s)
  case Nil
  then show ?case by auto
next
  case (Cons x xs)
  have "\<not> prefix pat (x # xs)"
  proof
    assume "prefix pat (x # xs)"
    then have "length pat \<le> length (x # xs)" by (rule prefix_length_le)
    with Cons.prems show False by simp
  qed
  with Cons show ?case by simp
qed

lemma prefix_take_conv: "prefix pat xs \<longleftrightarrow> take (length pat) xs = pat"
proof
  assume "prefix pat xs"
  then show "take (length pat) xs = pat" by (auto simp: prefix_def)
next
  assume "take (length pat) xs = pat"
  then have "xs = pat @ drop (length pat) xs"
    by (metis append_take_drop_id)
  then show "prefix pat xs" by (rule prefixI)
qed

lemma afterFirst_indexFrom:
  "k \<le> length s \<Longrightarrow>
   afterFirst pat (drop k s) = map_option (\<lambda>e. drop (e + length pat) s) (indexFrom s pat k)"
proof (induction s pat k rule: indexFrom.induct)
  case (1 s pat k)
  show ?case
  proof (cases "k + length pat \<le> length s")
    case False
    with "1.prems" have "afterFirst pat (drop k s) = None"
      by (intro afterFirst_short) simp
    with False show ?thesis
      by (subst indexFrom.simps) simp
  next
    case fits: True
    show ?thesis
    proof (cases "drop k s")
      case Nil
      with "1.prems" have "length s = k" by simp
      with fits have "pat = []" by simp
      with Nil \<open>length s = k\<close> show ?thesis
        by (subst indexFrom.simps) simp
    next
      case (Cons x xs)
      then have k: "k < length s"
        by (cases "k < length s") simp_all
      have "drop (Suc k) s = tl (drop k s)"
        by (simp add: drop_Suc tl_drop)
      with Cons have xs: "xs = drop (Suc k) s" by simp
      show ?thesis
      proof (cases "take (length pat) (drop k s) = pat")
        case True
        then have "prefix pat (drop k s)" by (simp add: prefix_take_conv)
        then have "afterFirst pat (drop k s) = Some (drop (length pat) (drop k s))"
          unfolding Cons by simp
        moreover have "indexFrom s pat k = Some k"
          using fits True by (subst indexFrom.simps) simp
        ultimately show ?thesis by (simp add: add.commute)
      next
        case False
        with fits k have "afterFirst pat (drop (Suc k) s) =
            map_option (\<lambda>e. drop (e + length pat) s) (indexFrom s pat (Suc k))"
          by (intro "1.IH") simp_all
        moreover from False have "\<not> prefix pat (drop k s)" by (simp add: prefix_take_conv)
        then have "afterFirst pat (drop k s) = afterFirst pat (drop (Suc k) s)"
          unfolding Cons xs by simp
        moreover have "indexFrom s pat k = indexFrom s pat (Suc k)"
          using fits False by (subst indexFrom.simps) simp
        ultimately show ?thesis by simp
      qed
    qed
  qed
qed

lemma closeSingle_skipSingle:
  "closeSingle (drop i sql) =
     (if skipSingle sql i < length sql then Some (drop (Suc (skipSingle sql i)) sql) else None)"
proof (induction sql i rule: skipSingle.induct)
  case (1 sql i)
  show ?case
  proof (cases "i < length sql")
    case False
    then have "skipSingle sql i = i" by (subst skipSingle.simps) simp
    with False show ?thesis by simp
  next
    case True
    then have d: "drop i sql = sql ! i # drop (Suc i) sql"
      by (simp add: Cons_nth_drop_Suc)
    show ?thesis
    proof (cases "sql ! i = APOS")
      case q: True
      show ?thesis
      proof (cases "i + 1 < length sql")
        case l: True
        then have d': "drop (Suc i) sql = sql ! (Suc i) # drop (Suc (Suc i)) sql"
          by (simp add: Cons_nth_drop_Suc)
        show ?thesis
        proof (cases "sql ! (Suc i) = APOS")
          case qq: True
          with True q l have e: "skipSingle sql i = skipSingle sql (i + 2)"
            by (subst skipSingle.simps) simp
          from True q l qq have "closeSingle (drop (i + 2) sql) =
             (if skipSingle sql (i + 2) < length sql
              then Some (drop (Suc (skipSingle sql (i + 2))) sql) else None)"
            by (intro "1.IH"(1)) simp_all
          with q qq show ?thesis
            unfolding e d by (simp add: d')
        next
          case False
          with True q have e: "skipSingle sql i = i"
            by (subst skipSingle.simps) simp
          from q False True show ?thesis
            unfolding e d by (simp add: d')
        qed
      next
        case False
        with True q have e: "skipSingle sql i = i"
          by (subst skipSingle.simps) simp
        from q False True show ?thesis
          unfolding e d by simp
      qed
    next
      case False
      with True have e: "skipSingle sql i = skipSingle sql (i + 1)"
        by (subst skipSingle.simps) simp
      from True False have "closeSingle (drop (i + 1) sql) =
             (if skipSingle sql (i + 1) < length sql
              then Some (drop (Suc (skipSingle sql (i + 1))) sql) else None)"
        by (intro "1.IH"(2)) simp_all
      with False show ?thesis
        unfolding e d by simp
    qed
  qed
qed

lemma dropWhile_skipDouble:
  "dropWhile (\<lambda>c. c \<noteq> DQUOTE) (drop i sql) = drop (skipDouble sql i) sql"
proof (induction sql i rule: skipDouble.induct)
  case (1 sql i)
  show ?case
  proof (cases "i < length sql")
    case False
    then show ?thesis by (subst skipDouble.simps) simp
  next
    case True
    then have d: "drop i sql = sql ! i # drop (Suc i) sql"
      by (simp add: Cons_nth_drop_Suc)
    from True "1.IH" show ?thesis
      by (subst skipDouble.simps) (simp add: d)
  qed
qed

lemma closeDouble_skipDouble:
  "closeDouble (drop i sql) =
     (if skipDouble sql i < length sql then Some (drop (Suc (skipDouble sql i)) sql) else None)"
  by (simp add: closeDouble_def dropWhile_skipDouble Cons_nth_drop_Suc [symmetric])

lemma dropWhile_skipTag:
  "dropWhile isTagChar (drop j sql) = drop (skipTag sql j) sql"
proof (induction sql j rule: skipTag.induct)
  case (1 sql j)
  show ?case
  proof (cases "j < length sql")
    case False
    then show ?thesis by (subst skipTag.simps) simp
  next
    case True
    then have d: "drop j sql = sql ! j # drop (Suc j) sql"
      by (simp add: Cons_nth_drop_Suc)
    from True "1.IH" show ?thesis
      by (subst skipTag.simps) (simp add: d)
  qed
qed

lemma takeWhile_skipTag:
  "takeWhile isTagChar (drop j sql) = take (skipTag sql j - j) (drop j sql)"
proof (induction sql j rule: skipTag.induct)
  case (1 sql j)
  show ?case
  proof (cases "j < length sql")
    case False
    then show ?thesis by (subst skipTag.simps) simp
  next
    case True
    then have d: "drop j sql = sql ! j # drop (Suc j) sql"
      by (simp add: Cons_nth_drop_Suc)
    have "Suc j \<le> skipTag sql (Suc j)" by (rule skipTag_ge)
    then have "skipTag sql (Suc j) - j = Suc (skipTag sql (Suc j) - Suc j)" by simp
    with True "1.IH" show ?thesis
      by (subst skipTag.simps) (simp add: d)
  qed
qed

lemma indexOf_afterFirst:
  "pos \<le> length sql \<Longrightarrow>
   afterFirst pat (drop pos sql) = map_option (\<lambda>e. drop (e + length pat) sql) (indexOf sql pat pos)"
  by (simp add: indexOf_def afterFirst_indexFrom min_absorb1)

lemma agrees_indexOf:
  assumes "pos \<le> length sql"
  shows "agrees sql (case indexOf sql pat pos of None \<Rightarrow> Return True
                     | Some e \<Rightarrow> Continue (e + length pat))
           (afterFirst pat (drop pos sql))"
  unfolding indexOf_afterFirst [OF assms] agrees_def
  by (cases "indexOf sql pat pos") simp_all

lemma agrees_single: "agrees sql (Continue (Suc (skipSingle sql j))) (closeSingle (drop j sql))"
  unfolding closeSingle_skipSingle agrees_def by simp

lemma agrees_double: "agrees sql (Continue (Suc (skipDouble sql j))) (closeDouble (drop j sql))"
  unfolding closeDouble_skipDouble agrees_def by simp

lemma indexFrom_skip:
  assumes "k < length s" and "s ! k \<noteq> c"
  shows "indexFrom s [c] k = indexFrom s [c] (Suc k)"
proof -
  from assms(1) have "drop k s = s ! k # drop (Suc k) s"
    by (simp add: Cons_nth_drop_Suc)
  with assms show ?thesis
    by (subst indexFrom.simps) simp
qed

lemma substring_tag:
  assumes i: "i < length sql" and j: "skipTag sql (Suc i) < length sql"
  shows "substring sql i (Suc (skipTag sql (Suc i))) =
         sql ! i # takeWhile isTagChar (drop (Suc i) sql) @ [sql ! skipTag sql (Suc i)]"
proof -
  define j where "j = skipTag sql (Suc i)"
  have ij: "Suc i \<le> j" unfolding j_def by (rule skipTag_ge)
  from j have jl: "j < length sql" by (simp add: j_def)
  have "substring sql i (Suc j) = take (Suc j - i) (drop i sql)"
    using ij jl by (simp add: substring_def Let_def min_def max_def)
  also have "Suc j - i = Suc (Suc (j - Suc i))" using ij by simp
  also have "take (Suc (Suc (j - Suc i))) (drop i sql) =
             sql ! i # take (Suc (j - Suc i)) (drop (Suc i) sql)"
    using i by (simp add: Cons_nth_drop_Suc [symmetric])
  also have "take (Suc (j - Suc i)) (drop (Suc i) sql) =
             take (j - Suc i) (drop (Suc i) sql) @ [drop (Suc i) sql ! (j - Suc i)]"
    using ij jl by (intro take_Suc_conv_app_nth) simp
  also have "drop (Suc i) sql ! (j - Suc i) = sql ! j"
    using ij jl by simp
  also have "take (j - Suc i) (drop (Suc i) sql) = takeWhile isTagChar (drop (Suc i) sql)"
    unfolding j_def by (rule takeWhile_skipTag [symmetric])
  finally show ?thesis unfolding j_def .
qed

lemma dollarTag_drop:
  assumes "i < length sql" and "sql ! i = DOLLAR"
  shows "dollarTag (drop (Suc i) sql) =
         (let j = skipTag sql (Suc i) in
            if j < length sql \<and> sql ! j = DOLLAR
            then Some (substring sql i (j + 1), drop (Suc j) sql) else None)"
proof (cases "skipTag sql (Suc i) < length sql")
  case False
  then show ?thesis
    by (simp add: dollarTag_def dropWhile_skipTag)
next
  case True
  then have "drop (skipTag sql (Suc i)) sql =
      sql ! skipTag sql (Suc i) # drop (Suc (skipTag sql (Suc i))) sql"
    by (simp add: Cons_nth_drop_Suc)
  with True assms show ?thesis
    by (simp add: dollarTag_def dropWhile_skipTag substring_tag Let_def)
qed

lemma loop_body_lexicalContext:
  assumes i: "i < length sql"
  shows "case lexicalContext (drop i sql) of
           None \<Rightarrow> loop_body sql i =
             (if sql ! i = SEMI \<and> \<not> list_all isWhiteSpace (drop (Suc i) sql)
              then Return False else Continue (Suc i))
         | Some ro \<Rightarrow> agrees sql (loop_body sql i) ro"
proof -
  define c where "c = sql ! i"
  define cs where "cs = drop (Suc i) sql"
  have d: "drop i sql = c # cs"
    using i by (simp add: c_def cs_def Cons_nth_drop_Suc)
  have nxt: "(if i + 1 < length sql then Some (sql ! (i + 1)) else None) = Some x
             \<longleftrightarrow> prefix [x] cs" for x
  proof (cases "i + 1 < length sql")
    case True
    then have "cs = sql ! (i + 1) # drop (i + 2) sql"
      by (simp add: cs_def Cons_nth_drop_Suc)
    with True show ?thesis by auto
  next
    case False
    then show ?thesis by (simp add: cs_def)
  qed
  have tl: "tl cs = drop (i + 2) sql"
    by (simp add: cs_def drop_Suc tl_drop)
  have sub: "substring sql (i + 1) (length sql) = cs"
    using i by (simp add: substring_def Let_def cs_def min_def max_def)
  have ws: "length (trim (substring sql (i + 1) (length sql))) > 0 \<longleftrightarrow>
            \<not> list_all isWhiteSpace cs"
    unfolding sub using trim_empty [of cs] by simp
  consider
      (line) "c = MINUS" "prefix [MINUS] cs"
    | (block) "\<not> (c = MINUS \<and> prefix [MINUS] cs)" "c = SLASH" "prefix [STAR] cs"
    | (single) "c = APOS"
    | (double) "c = DQUOTE"
    | (dollar) "c = DOLLAR"
    | (plain) "\<not> (c = MINUS \<and> prefix [MINUS] cs)" "\<not> (c = SLASH \<and> prefix [STAR] cs)"
        "c \<noteq> APOS" "c \<noteq> DQUOTE" "c \<noteq> DOLLAR"
    by blast
  then show ?thesis
  proof cases
    case line
    then have i1: "i + 1 < length sql" and n1: "sql ! (i + 1) = MINUS"
      using nxt [of MINUS] by (auto split: if_splits)
    have "indexOf sql [NEWLINE] i = indexFrom sql [NEWLINE] i"
      using i by (simp add: indexOf_def min_def)
    also have "\<dots> = indexFrom sql [NEWLINE] (Suc i)"
      using i line(1) by (intro indexFrom_skip) (simp_all add: c_def char_defs)
    also have "\<dots> = indexFrom sql [NEWLINE] (Suc (Suc i))"
      using i1 n1 by (intro indexFrom_skip) (simp_all add: char_defs)
    also have "\<dots> = indexOf sql [NEWLINE] (i + 2)"
      using i1 by (simp add: indexOf_def min_def)
    finally have e: "indexOf sql [NEWLINE] i = indexOf sql [NEWLINE] (i + 2)" .
    have lb: "loop_body sql i =
        (case indexOf sql [NEWLINE] (i + 2) of None \<Rightarrow> Return True
         | Some e \<Rightarrow> Continue (e + length [NEWLINE]))"
      using line nxt [of MINUS] unfolding loop_body_def Let_def c_def [symmetric] e
      by (simp split: option.splits)
    have lc: "lexicalContext (drop i sql) = Some (afterFirst [NEWLINE] (drop (i + 2) sql))"
      using line unfolding d lexicalContext_def tl [symmetric] by simp
    show ?thesis unfolding lb lc using i1 by (simp add: agrees_indexOf)
  next
    case block
    then have i1: "i + 1 < length sql"
      using nxt [of STAR] by (auto split: if_splits)
    have lb: "loop_body sql i =
        (case indexOf sql [STAR, SLASH] (i + 2) of None \<Rightarrow> Return True
         | Some e \<Rightarrow> Continue (e + length [STAR, SLASH]))"
      using block nxt [of STAR] nxt [of MINUS]
      unfolding loop_body_def Let_def c_def [symmetric]
      by (simp add: char_defs split: option.splits)
    have lc: "lexicalContext (drop i sql) = Some (afterFirst [STAR, SLASH] (drop (i + 2) sql))"
      using block unfolding d lexicalContext_def tl [symmetric] by (simp add: char_defs)
    show ?thesis unfolding lb lc using i1 by (simp add: agrees_indexOf)
  next
    case single
    have lb: "loop_body sql i = Continue (skipSingle sql (Suc i) + 1)"
      using single unfolding loop_body_def Let_def c_def [symmetric] by (simp add: char_defs)
    have lc: "lexicalContext (drop i sql) = Some (closeSingle (drop (Suc i) sql))"
      using single unfolding d lexicalContext_def cs_def [symmetric] by (simp add: char_defs)
    show ?thesis unfolding lb lc by (simp add: agrees_single)
  next
    case double
    have lb: "loop_body sql i = Continue (skipDouble sql (Suc i) + 1)"
      using double unfolding loop_body_def Let_def c_def [symmetric] by (simp add: char_defs)
    have lc: "lexicalContext (drop i sql) = Some (closeDouble (drop (Suc i) sql))"
      using double unfolding d lexicalContext_def cs_def [symmetric] by (simp add: char_defs)
    show ?thesis unfolding lb lc by (simp add: agrees_double)
  next
    case dollar
    define j where "j = skipTag sql (Suc i)"
    have ij: "Suc i \<le> j" unfolding j_def by (rule skipTag_ge)
    have dt: "dollarTag cs =
        (if j < length sql \<and> sql ! j = DOLLAR
         then Some (substring sql i (j + 1), drop (Suc j) sql) else None)"
      using dollarTag_drop [OF i] dollar unfolding c_def cs_def j_def Let_def by simp
    have lb0: "loop_body sql i =
        (case dollarQuote sql i of Some out \<Rightarrow> out
         | None \<Rightarrow> if c = SEMI \<and> \<not> list_all isWhiteSpace cs then Return False
                    else Continue (i + 1))"
      using dollar unfolding loop_body_def Let_def c_def [symmetric] ws
      by (simp add: char_defs)
    show ?thesis
    proof (cases "j < length sql \<and> sql ! j = DOLLAR")
      case True
      define tag where "tag = substring sql i (j + 1)"
      from True have dq: "dollarQuote sql i =
          Some (case indexOf sql tag (j + 1) of None \<Rightarrow> Return True
                | Some e \<Rightarrow> Continue (e + length tag))"
        unfolding dollarQuote_def Let_def tag_def j_def
        by (simp split: option.splits)
      have lc: "lexicalContext (drop i sql) = Some (afterFirst tag (drop (j + 1) sql))"
        using dollar True unfolding d lexicalContext_def tag_def by (simp add: dt char_defs)
      show ?thesis unfolding lb0 dq lc using True by (simp add: agrees_indexOf)
    next
      case False
      then have dq: "dollarQuote sql i = None"
        unfolding dollarQuote_def Let_def j_def by auto
      have lc: "lexicalContext (drop i sql) = None"
        using dollar False unfolding d lexicalContext_def by (simp add: dt char_defs)
      show ?thesis unfolding lb0 dq lc using dollar
        by (simp add: char_defs c_def cs_def)
    qed
  next
    case plain
    have lb: "loop_body sql i =
        (if c = SEMI \<and> \<not> list_all isWhiteSpace cs then Return False else Continue (i + 1))"
      using plain nxt [of STAR] nxt [of MINUS]
      unfolding loop_body_def Let_def c_def [symmetric] ws by (auto simp: char_defs)
    have lc: "lexicalContext (drop i sql) = None"
      using plain unfolding d lexicalContext_def by (auto simp: char_defs)
    show ?thesis unfolding lb lc by (simp add: c_def cs_def)
  qed
qed

lemma specSingleStatement_Nil: "specSingleStatement []"
  by (simp add: specSingleStatement_def outside.simps)

lemma scan_past_end: "length sql \<le> k \<Longrightarrow> scan sql k"
  by (subst scan.simps) simp

lemma scan_outside: "scan sql i = specSingleStatement (drop i sql)"
proof (induction sql i rule: scan.induct)
  case (1 sql i)
  show ?case
  proof (cases "i < length sql")
    case False
    then show ?thesis
      by (simp add: scan_past_end specSingleStatement_Nil)
  next
    case True
    then have d: "drop i sql = sql ! i # drop (Suc i) sql"
      by (simp add: Cons_nth_drop_Suc)
    have sc: "scan sql i = (case loop_body sql i of Return b \<Rightarrow> b | Continue k \<Rightarrow> scan sql k)"
      using True by (subst scan.simps) simp
    note lb = loop_body_lexicalContext [OF True]
    show ?thesis
    proof (cases "lexicalContext (drop i sql)")
      case None
      with lb have l: "loop_body sql i =
          (if sql ! i = SEMI \<and> \<not> list_all isWhiteSpace (drop (Suc i) sql)
           then Return False else Continue (Suc i))"
        by simp
      have o: "outside (drop i sql) = drop i sql # outside (drop (Suc i) sql)"
        using None unfolding d by (simp add: outside.simps)
      show ?thesis
      proof (cases "sql ! i = SEMI \<and> \<not> list_all isWhiteSpace (drop (Suc i) sql)")
        case True
        with l sc have "\<not> scan sql i" by simp
        moreover from True have "\<not> specSingleStatement (drop i sql)"
          unfolding specSingleStatement_def o by (simp add: d)
        ultimately show ?thesis by simp
      next
        case False
        with l have l': "loop_body sql i = Continue (Suc i)" by simp
        with sc have "scan sql i = scan sql (Suc i)" by simp
        also have "\<dots> = specSingleStatement (drop (Suc i) sql)"
          using True l' by (rule "1.IH")
        also have "\<dots> = specSingleStatement (drop i sql)"
          using False unfolding specSingleStatement_def o by (auto simp: d)
        finally show ?thesis .
      qed
    next
      case (Some ro)
      with lb have a: "agrees sql (loop_body sql i) ro" by simp
      show ?thesis
      proof (cases ro)
        case None
        have "outside (drop i sql) = []"
          using Some None unfolding d by (simp add: outside.simps)
        then have "specSingleStatement (drop i sql)"
          by (simp add: specSingleStatement_def)
        moreover from a None have "scan sql i"
          unfolding agrees_def sc by (auto simp: scan_past_end split: outcome.splits)
        ultimately show ?thesis by simp
      next
        case (Some r)
        with a obtain k where k: "loop_body sql i = Continue k" and r: "drop k sql = r"
          by (cases "loop_body sql i") (auto simp: agrees_def)
        have "outside (drop i sql) = outside r"
          using Some \<open>lexicalContext (drop i sql) = Some ro\<close> unfolding d
          by (simp add: outside.simps)
        then have "specSingleStatement (drop i sql) = specSingleStatement r"
          by (simp add: specSingleStatement_def)
        moreover have "scan sql i = scan sql k" using k sc by simp
        moreover have "scan sql k = specSingleStatement (drop k sql)"
          using True k by (rule "1.IH")
        ultimately show ?thesis using r by simp
      qed
    qed
  qed
qed

lemma scan_from_start: "scan sql 0 = specSingleStatement sql"
  by (simp add: scan_outside)

lemmas eval_simps = isSingleStatement_def scan_from_start specSingleStatement_def outside.simps
  lexicalContext_def dollarTag_def closeDouble_def char_defs isTagChar_def isWhiteSpace_def js_def


lemma visited_cases:
  assumes "k \<in> set (visited sql i)"
  shows "i < length sql \<and>
         (k = i \<or> (\<exists>j. loop_body sql i = Continue j \<and> k \<in> set (visited sql j)))"
proof -
  have e: "visited sql i =
     (if i < length sql then
        i # (case loop_body sql i of Return b \<Rightarrow> [] | Continue k \<Rightarrow> visited sql k)
      else [])"
    by (rule visited.simps)
  from assms show ?thesis
    unfolding e by (cases "loop_body sql i") (simp_all split: if_splits)
qed

lemma visited_scan: "k \<in> set (visited sql i) \<Longrightarrow> scan sql k = scan sql i"
proof (induction sql i rule: visited.induct)
  case (1 sql i)
  from visited_cases [OF "1.prems"] have i: "i < length sql"
    and c: "k = i \<or> (\<exists>j. loop_body sql i = Continue j \<and> k \<in> set (visited sql j))"
    by simp_all
  from c show ?case
  proof (elim disjE exE conjE)
    assume "k = i"
    then show ?thesis by simp
  next
    fix j
    assume j: "loop_body sql i = Continue j" and k: "k \<in> set (visited sql j)"
    from i j k have "scan sql k = scan sql j" by (rule "1.IH")
    moreover from i j have "scan sql i = scan sql j"
      by (subst scan.simps) simp
    ultimately show ?thesis by simp
  qed
qed

lemma visited_in_range: "k \<in> set (visited sql i) \<Longrightarrow> k < length sql"
proof (induction sql i rule: visited.induct)
  case (1 sql i)
  from visited_cases [OF "1.prems"] have i: "i < length sql"
    and c: "k = i \<or> (\<exists>j. loop_body sql i = Continue j \<and> k \<in> set (visited sql j))"
    by simp_all
  from c i show ?case
    by (auto dest: "1.IH" [OF i])
qed

lemma afterFirst_None_iff: "afterFirst pat s = None \<longleftrightarrow> \<not> sublist pat s"
  by (induction s) (auto simp: sublist_Cons_right)

lemma indexOf_None:
  "pos \<le> length sql \<Longrightarrow> \<not> sublist pat (drop pos sql) \<Longrightarrow> indexOf sql pat pos = None"
proof -
  assume "pos \<le> length sql" and "\<not> sublist pat (drop pos sql)"
  then have "map_option (\<lambda>e. drop (e + length pat) sql) (indexOf sql pat pos) = None"
    using indexOf_afterFirst [of pos sql pat] afterFirst_None_iff [of pat "drop pos sql"]
    by simp
  then show ?thesis by simp
qed

lemma loop_body_block:
  assumes "drop i sql = SLASH # STAR # rest"
  shows "loop_body sql i =
     (case indexOf sql [STAR, SLASH] (i + 2) of None \<Rightarrow> Return True
      | Some e \<Rightarrow> Continue (e + 2))"
    and "drop (i + 2) sql = rest" and "i + 2 \<le> length sql"
proof -
  have l: "i + 2 \<le> length sql"
  proof (rule ccontr)
    assume "\<not> i + 2 \<le> length sql"
    then have "length (drop i sql) < 2" by simp
    with assms show False by simp
  qed
  then show "i + 2 \<le> length sql" .
  from l have "drop i sql = sql ! i # sql ! (i + 1) # drop (i + 2) sql"
    by (simp add: Cons_nth_drop_Suc)
  with assms have c: "sql ! i = SLASH" "sql ! (i + 1) = STAR" and r: "drop (i + 2) sql = rest"
    by simp_all
  from r show "drop (i + 2) sql = rest" .
  from l c show "loop_body sql i =
     (case indexOf sql [STAR, SLASH] (i + 2) of None \<Rightarrow> Return True
      | Some e \<Rightarrow> Continue (e + 2))"
    unfolding loop_body_def Let_def by (simp add: char_defs)
qed

lemma dollarTag_delim:
  assumes "list_all isTagChar tag"
  shows "dollarTag (tag @ DOLLAR # body) = Some (DOLLAR # tag @ [DOLLAR], body)"
proof -
  have nd: "\<not> isTagChar DOLLAR" by (simp add: isTagChar_def DOLLAR_def)
  from assms have "dropWhile isTagChar (tag @ DOLLAR # body) = DOLLAR # body"
    using nd by (simp add: dropWhile_append2 list_all_iff)
  moreover from assms have "takeWhile isTagChar (tag @ DOLLAR # body) = tag"
    using nd by (simp add: takeWhile_append2 list_all_iff)
  ultimately show ?thesis by (simp add: dollarTag_def)
qed

lemma loop_body_dollar:
  assumes "drop i sql = DOLLAR # cs"
  shows "loop_body sql i =
     (case dollarQuote sql i of Some out \<Rightarrow> out | None \<Rightarrow> Continue (i + 1))"
    and "i < length sql" and "sql ! i = DOLLAR" and "drop (Suc i) sql = cs"
proof -
  have l: "i < length sql"
    using assms by (cases "i < length sql") simp_all
  then show "i < length sql" .
  from l have "drop i sql = sql ! i # drop (Suc i) sql"
    by (simp add: Cons_nth_drop_Suc)
  with assms show c: "sql ! i = DOLLAR" and "drop (Suc i) sql = cs" by simp_all
  then show "loop_body sql i =
     (case dollarQuote sql i of Some out \<Rightarrow> out | None \<Rightarrow> Continue (i + 1))"
    unfolding loop_body_def Let_def by (simp add: char_defs)
qed

lemma dollarQuote_unterminated:
  assumes d: "drop i sql = DOLLAR # tag @ DOLLAR # body" and t: "list_all isTagChar tag"
    and n: "\<not> sublist (DOLLAR # tag @ [DOLLAR]) body"
  shows "dollarQuote sql i = Some (Return True)"
proof -
  note lb = loop_body_dollar [OF d]
  define j where "j = skipTag sql (Suc i)"
  have "dollarTag (drop (Suc i) sql) = Some (DOLLAR # tag @ [DOLLAR], body)"
    unfolding lb(4) using t by (rule dollarTag_delim)
  then have j: "j < length sql \<and> sql ! j = DOLLAR"
    and s: "substring sql i (j + 1) = DOLLAR # tag @ [DOLLAR]" and b: "drop (Suc j) sql = body"
    unfolding dollarTag_drop [OF lb(2,3)] Let_def j_def by (simp_all split: if_splits)
  from j b n have "indexOf sql (DOLLAR # tag @ [DOLLAR]) (j + 1) = None"
    by (intro indexOf_None) simp_all
  with j s show ?thesis
    unfolding dollarQuote_def Let_def j_def by simp
qed

lemmas index_eval_simps = visited.simps loop_body_def dollarQuote_def indexOf_def
  indexFrom.simps skipTag.simps skipSingle.simps skipDouble.simps substring_def trim_def
  char_defs isTagChar_def isWhiteSpace_def js_def

text \<open>Cases of the repository's own test suite, run on the model.\<close>

lemma isSingleStatement_repository_tests:
  "isSingleStatement (js ''SELECT 1;   '')"
  "isSingleStatement (js ''SELECT * FROM users WHERE name = 'foo;bar'' @ [APOS])"
  "isSingleStatement (js ''SELECT * FROM t WHERE x = 'it'' @ [APOS, APOS] @ js ''s;here'' @ [APOS])"
  "isSingleStatement (js ''SELECT 1 -- ; DROP TABLE users'')"
  "isSingleStatement (js ''SELECT /* ;; ;; */ 1'')"
  "isSingleStatement (js ''SELECT 1 /* ; unclosed'')"
  "isSingleStatement (js ''SELECT $fn$BEGIN; RETURN 1; END;$fn$'')"
  "isSingleStatement (js ''SELECT $$foo;bar'')"
  "isSingleStatement (js ''SELECT '' @ [DQUOTE] @ js ''col;name'' @ [DQUOTE] @ js '' FROM users'')"
  "\<not> isSingleStatement (js ''COMMIT; DROP SCHEMA public CASCADE; --'')"
  "\<not> isSingleStatement (js ''SELECT 1; -- comment'' @ [NEWLINE] @ js ''DROP TABLE users'')"
  "\<not> isSingleStatement (js ''SELECT $$safe;body$$; DROP TABLE users'')"
  "\<not> isSingleStatement (js ''SELECT /* comment */ 1; DROP TABLE users'')"
  by (simp_all add: eval_simps)

section \<open>Claims about the statement classifier\<close>

lemma whitespace_not_special:
  assumes "isWhiteSpace c"
  shows "lexicalContext (c # cs) = None" and "c \<noteq> SEMI"
  using assms by (auto simp: lexicalContext_def isWhiteSpace_def char_defs)

lemma whitespace_only: "list_all isWhiteSpace s \<Longrightarrow> specSingleStatement s"
proof (induction s)
  case Nil
  show ?case by (rule specSingleStatement_Nil)
next
  case (Cons c cs)
  then have "isWhiteSpace c" and "specSingleStatement cs" by simp_all
  then show ?case
    using whitespace_not_special(1) [of c cs] whitespace_not_special(2) [of c]
    by (simp add: specSingleStatement_def outside.simps)
qed

text \<open>
  C1. For every SQL text, \<open>isSingleStatement\<close> returns true if and only if the text,
  outside line comments, block comments, single-quoted literals (with doubled-quote
  escaping), double-quoted identifiers and dollar-tagged bodies, contains no semicolon
  followed by further non-whitespace content; in particular it returns true on every text
  with no semicolon outside those lexical contexts.
\<close>

theorem isSingleStatement_iff_spec:
  "(isSingleStatement sql \<longleftrightarrow> specSingleStatement sql) \<and>
   ((\<forall>t \<in> set (outside sql). hd t \<noteq> SEMI) \<longrightarrow> isSingleStatement sql)"
  by (simp add: isSingleStatement_def scan_from_start specSingleStatement_def)

theorem isSingleStatement_iff_spec_witness:
  "isSingleStatement (js ''SELECT 'a;b' /* ; */ 1 -- ;'') \<and>
   \<not> isSingleStatement (js ''SELECT 'x'; DROP TABLE users'')"
proof -
  have a: "\<forall>t \<in> set (outside (js ''SELECT 'a;b' /* ; */ 1 -- ;'')). hd t \<noteq> SEMI"
    by (simp add: outside.simps lexicalContext_def dollarTag_def closeDouble_def char_defs
        isTagChar_def js_def)
  have b: "\<not> specSingleStatement (js ''SELECT 'x'; DROP TABLE users'')"
    by (simp add: specSingleStatement_def outside.simps lexicalContext_def dollarTag_def
        closeDouble_def char_defs isTagChar_def isWhiteSpace_def js_def)
  from a b show ?thesis
    using isSingleStatement_iff_spec [of "js ''SELECT 'a;b' /* ; */ 1 -- ;''"]
      isSingleStatement_iff_spec [of "js ''SELECT 'x'; DROP TABLE users''"]
    by blast
qed

text \<open>
  C5. \<open>isSingleStatement\<close> returns true on the empty string, on every string consisting
  solely of whitespace, and on the string \<open>;\<close>; it returns true on every text where each
  semicolon outside lexical contexts is followed only by whitespace (including none); and
  it returns false on \<open>;;\<close>.
\<close>

theorem isSingleStatement_edge_cases:
  "isSingleStatement (js '''') \<and>
   (list_all isWhiteSpace ws \<longrightarrow> isSingleStatement ws) \<and>
   isSingleStatement (js '';'') \<and>
   ((\<forall>t \<in> set (outside sql). hd t = SEMI \<longrightarrow> list_all isWhiteSpace (tl t))
      \<longrightarrow> isSingleStatement sql) \<and>
   \<not> isSingleStatement (js '';;'')"
proof (intro conjI impI)
  show "isSingleStatement (js '''')" by (simp add: eval_simps)
  show "isSingleStatement (js '';'')" by (simp add: eval_simps)
  show "\<not> isSingleStatement (js '';;'')" by (simp add: eval_simps)
  show "isSingleStatement ws" if "list_all isWhiteSpace ws"
    using whitespace_only [OF that] by (simp add: isSingleStatement_def scan_from_start)
  show "isSingleStatement sql"
    if "\<forall>t \<in> set (outside sql). hd t = SEMI \<longrightarrow> list_all isWhiteSpace (tl t)"
    using that by (simp add: isSingleStatement_def scan_from_start specSingleStatement_def)
qed

theorem isSingleStatement_edge_cases_witness:
  "isSingleStatement [32, 9, 10, 12288] \<and> isSingleStatement (js ''SELECT 1;  '')"
proof -
  have a: "list_all isWhiteSpace [32, 9, 10, 12288]"
    by (simp add: isWhiteSpace_def)
  have b: "\<forall>t \<in> set (outside (js ''SELECT 1;  '')).
      hd t = SEMI \<longrightarrow> list_all isWhiteSpace (tl t)"
    by (simp add: outside.simps lexicalContext_def dollarTag_def closeDouble_def char_defs
        isTagChar_def isWhiteSpace_def js_def)
  from a b show ?thesis
    using isSingleStatement_edge_cases [of "[32, 9, 10, 12288]" "js ''SELECT 1;  ''"]
    by blast
qed

text \<open>
  C6. When the scan reaches a block-comment opener with no closer, or a dollar-quote
  delimiter \<open>$tag$\<close> with no identical closing delimiter (reaching it means that no earlier
  semicolon outside lexical contexts was followed by non-whitespace content), the
  unterminated construct consumes the remainder of the input: the function returns true
  there, whatever the remainder contains.
\<close>

theorem unterminated_comment_or_dollar_body_is_safe:
  assumes reach: "i \<in> set (visited sql 0)"
    and opener:
      "(\<exists>rest. drop i sql = SLASH # STAR # rest \<and> \<not> sublist [STAR, SLASH] rest) \<or>
       (\<exists>tag body. drop i sql = DOLLAR # tag @ DOLLAR # body \<and> list_all isTagChar tag \<and>
          \<not> sublist (DOLLAR # tag @ [DOLLAR]) body)"
  shows "loop_body sql i = Return True \<and> isSingleStatement sql"
proof -
  from opener have "loop_body sql i = Return True"
  proof (elim disjE exE conjE)
    fix rest
    assume d: "drop i sql = SLASH # STAR # rest" and n: "\<not> sublist [STAR, SLASH] rest"
    note lb = loop_body_block [OF d]
    from lb(2,3) n have "indexOf sql [STAR, SLASH] (i + 2) = None"
      by (intro indexOf_None) simp_all
    with lb(1) show ?thesis by simp
  next
    fix tag body
    assume d: "drop i sql = DOLLAR # tag @ DOLLAR # body" and t: "list_all isTagChar tag"
      and n: "\<not> sublist (DOLLAR # tag @ [DOLLAR]) body"
    then have "dollarQuote sql i = Some (Return True)" by (rule dollarQuote_unterminated)
    with loop_body_dollar(1) [OF d] show ?thesis by simp
  qed
  moreover from this visited_in_range [OF reach] have "scan sql i"
    by (subst scan.simps) simp
  with visited_scan [OF reach] have "isSingleStatement sql"
    by (simp add: isSingleStatement_def)
  ultimately show ?thesis by simp
qed

theorem unterminated_comment_or_dollar_body_is_safe_witness:
  "isSingleStatement (js ''a/*;b'') \<and> isSingleStatement (js ''a $q$;b$q'')"
proof -
  have v1: "1 \<in> set (visited (js ''a/*;b'') 0)"
    by (simp add: index_eval_simps)
  have o1: "\<exists>rest. drop 1 (js ''a/*;b'') = SLASH # STAR # rest \<and> \<not> sublist [STAR, SLASH] rest"
    by (simp add: js_def char_defs sublist_Cons_right)
  have v2: "2 \<in> set (visited (js ''a $q$;b$q'') 0)"
    by (simp add: index_eval_simps)
  have o2: "\<exists>tag body. drop 2 (js ''a $q$;b$q'') = DOLLAR # tag @ DOLLAR # body \<and>
      list_all isTagChar tag \<and> \<not> sublist (DOLLAR # tag @ [DOLLAR]) body"
    by (rule exI [of _ "js ''q''"], rule exI [of _ "js '';b$q''"])
       (simp add: js_def char_defs isTagChar_def sublist_Cons_right)
  show ?thesis
    using unterminated_comment_or_dollar_body_is_safe [OF v1 disjI1 [OF o1]]
      unterminated_comment_or_dollar_body_is_safe [OF v2 disjI2 [OF o2]]
    by simp
qed

text \<open>
  C10. An unterminated single-quoted literal or double-quoted identifier consumes the
  remainder of the input as well: when the scan reaches an opening quote with no matching
  closer, the loop is left past the end of the input and the function returns true,
  whatever the unterminated span contains.
\<close>

theorem unterminated_quote_is_safe:
  assumes reach: "i \<in> set (visited sql 0)"
    and opener:
      "(\<exists>rest. drop i sql = APOS # rest \<and> closeSingle rest = None) \<or>
       (\<exists>rest. drop i sql = DQUOTE # rest \<and> DQUOTE \<notin> set rest)"
  shows "(\<exists>k. loop_body sql i = Continue k \<and> length sql < k) \<and> isSingleStatement sql"
proof -
  note i = visited_in_range [OF reach]
  then have d: "drop i sql = sql ! i # drop (Suc i) sql"
    by (simp add: Cons_nth_drop_Suc)
  from opener have k: "\<exists>k. loop_body sql i = Continue k \<and> length sql < k"
  proof (elim disjE exE conjE)
    fix rest
    assume o: "drop i sql = APOS # rest" and n: "closeSingle rest = None"
    with d have c: "sql ! i = APOS" and r: "drop (Suc i) sql = rest" by simp_all
    from n have "length sql \<le> skipSingle sql (Suc i)"
      unfolding r [symmetric] closeSingle_skipSingle by (simp split: if_splits)
    moreover from c have "loop_body sql i = Continue (Suc (skipSingle sql (Suc i)))"
      unfolding loop_body_def Let_def by (simp add: char_defs)
    ultimately show ?thesis by simp
  next
    fix rest
    assume o: "drop i sql = DQUOTE # rest" and n: "DQUOTE \<notin> set rest"
    with d have c: "sql ! i = DQUOTE" and r: "drop (Suc i) sql = rest" by simp_all
    from n have "closeDouble rest = None"
      by (induction rest) (auto simp: closeDouble_def)
    then have "length sql \<le> skipDouble sql (Suc i)"
      unfolding r [symmetric] closeDouble_skipDouble by (simp split: if_splits)
    moreover from c have "loop_body sql i = Continue (Suc (skipDouble sql (Suc i)))"
      unfolding loop_body_def Let_def by (simp add: char_defs)
    ultimately show ?thesis by simp
  qed
  then obtain k where k: "loop_body sql i = Continue k" "length sql < k" by blast
  with i have "scan sql i = scan sql k" by (subst scan.simps) simp
  with k have "scan sql i" by (simp add: scan_past_end)
  with visited_scan [OF reach] have "isSingleStatement sql"
    by (simp add: isSingleStatement_def)
  with k show ?thesis by blast
qed

theorem unterminated_quote_is_safe_witness:
  "isSingleStatement (js ''a 'b'' @ [APOS, APOS] @ js '';c'') \<and> isSingleStatement [97, DQUOTE, 59, 98]"
proof -
  have v1: "2 \<in> set (visited ((js ''a 'b'' @ [APOS, APOS] @ js '';c'')) 0)"
    by (simp add: index_eval_simps)
  have o1: "\<exists>rest. drop 2 ((js ''a 'b'' @ [APOS, APOS] @ js '';c'')) = APOS # rest \<and> closeSingle rest = None"
    by (simp add: js_def char_defs)
  have v2: "1 \<in> set (visited [97, DQUOTE, 59, 98] 0)"
    by (simp add: index_eval_simps)
  have o2: "\<exists>rest. drop 1 [97, DQUOTE, 59, 98] = DQUOTE # rest \<and> DQUOTE \<notin> set rest"
    by (simp add: char_defs)
  show ?thesis
    using unterminated_quote_is_safe [OF v1 disjI1 [OF o1]]
      unterminated_quote_is_safe [OF v2 disjI2 [OF o2]]
    by simp
qed

text \<open>
  C7 (as stated). The text \<open>SELECT $1$2; DROP TABLE t\<close> uses the positional
  placeholders \<open>$1\<close> and \<open>$2\<close>. The scan reaches the first dollar sign at index 7;
  \<open>$1$\<close> has no matching closing delimiter in the rest of the text, yet the scan treats
  it as the opener of a dollar-quoted body and returns true at once, although the semicolon
  at index 11 is followed by further content.
\<close>

theorem placeholder_before_dollar_counterexample:
  "7 \<in> set (visited stackedPlaceholders 0) \<and>
   stackedPlaceholders ! 7 = DOLLAR \<and>
   \<not> sublist (js ''$1$'') (drop 10 stackedPlaceholders) \<and>
   loop_body stackedPlaceholders 7 = Return True \<and>
   loop_body stackedPlaceholders 7 \<noteq> Continue 8 \<and>
   stackedPlaceholders ! 11 = SEMI \<and>
   \<not> list_all isWhiteSpace (drop 12 stackedPlaceholders) \<and>
   isSingleStatement stackedPlaceholders"
proof -
  have d: "drop 7 stackedPlaceholders = DOLLAR # js ''1'' @ DOLLAR # js ''2; DROP TABLE t''"
    by (simp add: stackedPlaceholders_def js_def char_defs)
  have t: "list_all isTagChar (js ''1'')"
    by (simp add: js_def isTagChar_def)
  have n: "\<not> sublist (DOLLAR # js ''1'' @ [DOLLAR]) (js ''2; DROP TABLE t'')"
    by (simp add: js_def char_defs sublist_Cons_right)
  have lb: "loop_body stackedPlaceholders 7 = Return True"
    using loop_body_dollar(1) [OF d] dollarQuote_unterminated [OF d t n] by simp
  have v: "7 \<in> set (visited stackedPlaceholders 0)"
    by (simp add: stackedPlaceholders_def index_eval_simps)
  have "isSingleStatement stackedPlaceholders"
    by (simp add: stackedPlaceholders_def eval_simps)
  moreover have "\<not> sublist (js ''$1$'') (drop 10 stackedPlaceholders)"
    by (simp add: stackedPlaceholders_def js_def sublist_Cons_right)
  moreover have "stackedPlaceholders ! 7 = DOLLAR" "stackedPlaceholders ! 11 = SEMI"
    "\<not> list_all isWhiteSpace (drop 12 stackedPlaceholders)"
    by (simp_all add: stackedPlaceholders_def js_def char_defs isWhiteSpace_def)
  ultimately show ?thesis using lb v by simp
qed

text \<open>
  C7 (amended). A dollar sign that does not begin a delimiter \<open>$tag$\<close> (the run of
  characters \<open>[a-zA-Z0-9_]\<close> after it is not followed by a second dollar sign) is not
  treated as a string opener: the scan steps over it to the next character, the dollar
  sign counts as a character outside all lexical contexts, and the verdict is that of the
  semicolon rule. \<open>SELECT $1\<close> and \<open>SELECT * FROM t WHERE id = $1 AND name = $2\<close>
  both return true.
\<close>

theorem bare_dollar_is_not_an_opener:
  "(i < length sql \<and> sql ! i = DOLLAR \<and>
      (case dropWhile isTagChar (drop (Suc i) sql) of [] \<Rightarrow> True | c # rest \<Rightarrow> c \<noteq> DOLLAR)
    \<longrightarrow> loop_body sql i = Continue (Suc i) \<and>
        outside (drop i sql) = drop i sql # outside (drop (Suc i) sql)) \<and>
   isSingleStatement (js ''SELECT $1'') \<and>
   isSingleStatement (js ''SELECT * FROM t WHERE id = $1 AND name = $2'')"
proof (intro conjI impI)
  assume h: "i < length sql \<and> sql ! i = DOLLAR \<and>
      (case dropWhile isTagChar (drop (Suc i) sql) of [] \<Rightarrow> True | c # rest \<Rightarrow> c \<noteq> DOLLAR)"
  then have i: "i < length sql" and c: "sql ! i = DOLLAR" by simp_all
  from i have d: "drop i sql = sql ! i # drop (Suc i) sql"
    by (simp add: Cons_nth_drop_Suc)
  from h have dt: "dollarTag (drop (Suc i) sql) = None"
    by (cases "dropWhile isTagChar (drop (Suc i) sql)")
       (simp_all add: dollarTag_def del: dropWhile_eq_Nil_conv)
  then have lc: "lexicalContext (drop i sql) = None"
    unfolding d using c by (simp add: lexicalContext_def char_defs)
  with loop_body_lexicalContext [OF i] c
  show "loop_body sql i = Continue (Suc i)"
    by (simp add: char_defs)
  from lc show "outside (drop i sql) = drop i sql # outside (drop (Suc i) sql)"
    unfolding d by (simp add: outside.simps)
next
  show "isSingleStatement (js ''SELECT $1'')"
    by (simp add: eval_simps)
  show "isSingleStatement (js ''SELECT * FROM t WHERE id = $1 AND name = $2'')"
    by (simp add: eval_simps)
qed

theorem bare_dollar_is_not_an_opener_witness:
  "loop_body (js ''SELECT $1'') 7 = Continue 8"
proof -
  have "7 < length (js ''SELECT $1'') \<and> js ''SELECT $1'' ! 7 = DOLLAR \<and>
      (case dropWhile isTagChar (drop (Suc 7) (js ''SELECT $1'')) of [] \<Rightarrow> True
       | c # rest \<Rightarrow> c \<noteq> DOLLAR)"
    by (simp add: js_def char_defs isTagChar_def)
  with bare_dollar_is_not_an_opener [of 7 "js ''SELECT $1''"] show ?thesis
    by simp
qed

section \<open>Claims about the configuration loader and the pool registry\<close>















text \<open>
  C9. When the fingerprint of the descriptor equals the one stored with the registry's
  entry for its label, \<open>getOrCreatePool\<close> returns the existing pool and changes nothing:
  no pool is constructed and none is closed. When the fingerprint differs or there is no
  entry, the old pool (if any) is closed and exactly one new pool is constructed and
  installed as the entry for that label. Hence a second call with the same descriptor
  returns the pool of the first and changes nothing. The fingerprint is a function of
  host, port, user, password, database, url, ssl and poolSize alone.
\<close>

theorem getOrCreatePool_reuses_or_replaces:
  "(pools st (label conn) = Some e \<and> hash e = connHash env conn
      \<longrightarrow> getOrCreatePool env conn st = (pool e, st)) \<and>
   (pools st (label conn) = None \<or>
    (\<exists>old. pools st (label conn) = Some old \<and> hash old \<noteq> connHash env conn)
      \<longrightarrow> (\<exists>new st'. getOrCreatePool env conn st = (new, st') \<and>
            new = \<lparr> poolId = constructed st, poolCfg = poolConfig conn \<rparr> \<and>
            pools st' = (pools st)(label conn \<mapsto> \<lparr> pool = new, hash = connHash env conn \<rparr>) \<and>
            constructed st' = Suc (constructed st) \<and>
            trace st' = trace st @
              (case pools st (label conn) of
                 None \<Rightarrow> []
               | Some old \<Rightarrow> [PoolEnd (poolId (pool old))]) @ [PoolCreated new] \<and>
            configCache st' = configCache st \<and> world st' = world st)) \<and>
   getOrCreatePool env conn (snd (getOrCreatePool env conn st)) =
     (fst (getOrCreatePool env conn st), snd (getOrCreatePool env conn st)) \<and>
   (host conn = host conn' \<and> port conn = port conn' \<and> user conn = user conn' \<and>
    password conn = password conn' \<and> database conn = database conn' \<and>
    url conn = url conn' \<and> ssl conn = ssl conn' \<and> poolSize conn = poolSize conn'
      \<longrightarrow> connHash env conn = connHash env conn')"
proof (intro conjI)
  show "pools st (label conn) = Some e \<and> hash e = connHash env conn
      \<longrightarrow> getOrCreatePool env conn st = (pool e, st)"
    by (simp add: getOrCreatePool_def Let_def)
  show "pools st (label conn) = None \<or>
    (\<exists>old. pools st (label conn) = Some old \<and> hash old \<noteq> connHash env conn)
      \<longrightarrow> (\<exists>new st'. getOrCreatePool env conn st = (new, st') \<and>
            new = \<lparr> poolId = constructed st, poolCfg = poolConfig conn \<rparr> \<and>
            pools st' = (pools st)(label conn \<mapsto> \<lparr> pool = new, hash = connHash env conn \<rparr>) \<and>
            constructed st' = Suc (constructed st) \<and>
            trace st' = trace st @
              (case pools st (label conn) of
                 None \<Rightarrow> []
               | Some old \<Rightarrow> [PoolEnd (poolId (pool old))]) @ [PoolCreated new] \<and>
            configCache st' = configCache st \<and> world st' = world st)"
    by (auto simp: getOrCreatePool_def Let_def emit_def)
  show "getOrCreatePool env conn (snd (getOrCreatePool env conn st)) =
     (fst (getOrCreatePool env conn st), snd (getOrCreatePool env conn st))"
    by (simp add: getOrCreatePool_def Let_def emit_def split: option.splits)
  show "host conn = host conn' \<and> port conn = port conn' \<and> user conn = user conn' \<and>
    password conn = password conn' \<and> database conn = database conn' \<and>
    url conn = url conn' \<and> ssl conn = ssl conn' \<and> poolSize conn = poolSize conn'
      \<longrightarrow> connHash env conn = connHash env conn'"
    by (simp add: connHash_def)
qed

theorem getOrCreatePool_reuses_or_replaces_witness:
  "getOrCreatePool (sampleEnv None) (sampleConn ''prod'' ''db2'' False True)
     (sampleServer\<lparr>pools := [js ''prod'' \<mapsto>
        \<lparr> pool = \<lparr> poolId = 0, poolCfg = poolConfig (sampleConn ''prod'' ''db2'' False True) \<rparr>,
          hash = js ''db2:5432'' \<rparr>], constructed := 1\<rparr>) =
   (\<lparr> poolId = 0, poolCfg = poolConfig (sampleConn ''prod'' ''db2'' False True) \<rparr>,
    sampleServer\<lparr>pools := [js ''prod'' \<mapsto>
        \<lparr> pool = \<lparr> poolId = 0, poolCfg = poolConfig (sampleConn ''prod'' ''db2'' False True) \<rparr>,
          hash = js ''db2:5432'' \<rparr>], constructed := 1\<rparr>) \<and>
   trace (snd (getOrCreatePool (sampleEnv None) (sampleConn ''prod'' ''db9'' False True)
     (sampleServer\<lparr>pools := [js ''prod'' \<mapsto>
        \<lparr> pool = \<lparr> poolId = 0, poolCfg = poolConfig (sampleConn ''prod'' ''db2'' False True) \<rparr>,
          hash = js ''db2:5432'' \<rparr>], constructed := 1\<rparr>))) =
   [PoolEnd 0,
    PoolCreated \<lparr> poolId = 1, poolCfg = poolConfig (sampleConn ''prod'' ''db9'' False True) \<rparr>]"
proof -
  let ?st = "sampleServer\<lparr>pools := [js ''prod'' \<mapsto>
        \<lparr> pool = \<lparr> poolId = 0, poolCfg = poolConfig (sampleConn ''prod'' ''db2'' False True) \<rparr>,
          hash = js ''db2:5432'' \<rparr>], constructed := 1\<rparr>"
  have h: "connHash (sampleEnv None) (sampleConn ''prod'' hostName False True) =
      js hostName @ js '':5432''" for hostName
    by (simp add: connHash_def sampleEnv_def sampleConn_def orDefault_def showNat.simps js_def)
  have same: "pools ?st (label (sampleConn ''prod'' ''db2'' False True)) =
      Some \<lparr> pool = \<lparr> poolId = 0, poolCfg = poolConfig (sampleConn ''prod'' ''db2'' False True) \<rparr>,
             hash = js ''db2:5432'' \<rparr> \<and>
      hash \<lparr> pool = \<lparr> poolId = 0, poolCfg = poolConfig (sampleConn ''prod'' ''db2'' False True) \<rparr>,
             hash = js ''db2:5432'' \<rparr> =
        connHash (sampleEnv None) (sampleConn ''prod'' ''db2'' False True)"
    unfolding h by (simp add: sampleConn_def js_def)
  have other: "\<exists>old. pools ?st (label (sampleConn ''prod'' ''db9'' False True)) = Some old \<and>
      hash old \<noteq> connHash (sampleEnv None) (sampleConn ''prod'' ''db9'' False True)"
    unfolding h by (simp add: sampleConn_def js_def)
  note reuse = getOrCreatePool_reuses_or_replaces
    [where st = ?st and env = "sampleEnv None" and conn = "sampleConn ''prod'' ''db2'' False True",
      THEN conjunct1, THEN mp, OF same]
  then have a: "getOrCreatePool (sampleEnv None) (sampleConn ''prod'' ''db2'' False True) ?st =
      (\<lparr> poolId = 0, poolCfg = poolConfig (sampleConn ''prod'' ''db2'' False True) \<rparr>, ?st)"
    by simp
  note replace = getOrCreatePool_reuses_or_replaces
    [where st = ?st and env = "sampleEnv None" and conn = "sampleConn ''prod'' ''db9'' False True",
      THEN conjunct2, THEN conjunct1, THEN mp, OF disjI2, OF other]
  then obtain new st' where n:
    "getOrCreatePool (sampleEnv None) (sampleConn ''prod'' ''db9'' False True) ?st = (new, st')"
    "new = \<lparr> poolId = constructed ?st,
              poolCfg = poolConfig (sampleConn ''prod'' ''db9'' False True) \<rparr>"
    "trace st' = trace ?st @
       (case pools ?st (label (sampleConn ''prod'' ''db9'' False True)) of
          None \<Rightarrow> []
        | Some old \<Rightarrow> [PoolEnd (poolId (pool old))]) @ [PoolCreated new]"
    by blast
  have b: "trace (snd (getOrCreatePool (sampleEnv None)
               (sampleConn ''prod'' ''db9'' False True) ?st)) =
      [PoolEnd 0,
       PoolCreated \<lparr> poolId = 1, poolCfg = poolConfig (sampleConn ''prod'' ''db9'' False True) \<rparr>]"
  proof -
    have "trace (snd (getOrCreatePool (sampleEnv None)
               (sampleConn ''prod'' ''db9'' False True) ?st)) = trace st'"
      by (simp only: n(1) snd_conv)
    also have "\<dots> = [PoolEnd 0,
       PoolCreated \<lparr> poolId = 1, poolCfg = poolConfig (sampleConn ''prod'' ''db9'' False True) \<rparr>]"
      unfolding n(3) n(2) by (simp add: sampleServer_def sampleConn_def js_def)
    finally show ?thesis .
  qed
  from a b show ?thesis by simp
qed

text \<open>
  C2. When \<open>isSingleStatement\<close> rejects the query, \<open>pg_query\<close> returns the error result
  with the multi-statement message and leaves the whole server state as it was: the
  configuration is not loaded, no descriptor is resolved, no pool is created or closed, no
  client is borrowed and the world is not touched.
\<close>

theorem pg_query_rejects_multi_statement:
  assumes "\<not> isSingleStatement sqlText"
  shows "pg_query env dbLabel sqlText params limit st =
     (\<lparr> content_text =
          js ''Error: Multi-statement queries are not allowed. Send one statement at a time.'',
        isError = True \<rparr>, st)"
  using assms by (simp add: pg_query_def resolve_def)

theorem pg_query_rejects_multi_statement_witness:
  "pg_query (sampleEnv None) (js ''prod'') (js ''SELECT 1; SELECT 2'') None None sampleServer =
     (\<lparr> content_text =
          js ''Error: Multi-statement queries are not allowed. Send one statement at a time.'',
        isError = True \<rparr>, sampleServer)"
proof -
  have "\<not> isSingleStatement (js ''SELECT 1; SELECT 2'')"
    by (simp add: eval_simps)
  then show ?thesis by (rule pg_query_rejects_multi_statement)
qed

section \<open>Claims about the query executor\<close>










end
